(* ===== verification/Prelude.thy ===== *)
theory Prelude
  imports Main "HOL-Library.Word" "HOL-Library.Char_ord" "HOL-Library.List_Lexorder"
begin

text \<open>
  What the components share: the machine types of the Go source (bytes and unsigned words at
  their width; \<open>int\<close> and \<open>int64\<close> values that are only compared are mathematical integers), the
  big-endian accessors of \<open>encoding/binary\<close>, Go's buffered channels with a non-blocking send, the
  division of \<open>int64\<close> values, and the two interfaces several components implement: a machine
  with an invariant and a machine that in addition never moves backwards.
\<close>

section \<open>Types and hint collections\<close>

unbundle bit_operations_syntax

type_synonym byte = "8 word"
type_synonym bytes = "byte list"
type_synonym u16 = "16 word"
type_synonym u32 = "32 word"
type_synonym u64 = "64 word"

text \<open>Definitions of operations that a component's proofs unfold.\<close>

named_theorems port_defs \<open>operations of a stream port\<close>
named_theorems relay_defs \<open>operations on the relay connection registry\<close>
named_theorems recv_defs \<open>operations of a stream receiver\<close>
named_theorems handler_defs \<open>handlers of the runtime\<close>

section \<open>Big-endian accessors of encoding/binary\<close>

definition putUint16 :: "u16 \<Rightarrow> bytes" where
  "putUint16 v = [ucast (drop_bit 8 v), ucast v]"

definition getUint16 :: "bytes \<Rightarrow> u16" where
  "getUint16 bs = ucast (bs ! 1) OR push_bit 8 (ucast (bs ! 0))"

definition putUint32 :: "u32 \<Rightarrow> bytes" where
  "putUint32 v = [ucast (drop_bit 24 v), ucast (drop_bit 16 v), ucast (drop_bit 8 v), ucast v]"

definition getUint32 :: "bytes \<Rightarrow> u32" where
  "getUint32 bs = ucast (bs ! 3) OR push_bit 8 (ucast (bs ! 2))
                  OR push_bit 16 (ucast (bs ! 1)) OR push_bit 24 (ucast (bs ! 0))"

lemma length_putUint16 [simp]: "length (putUint16 v) = 2"
  by (simp add: putUint16_def)

lemma length_putUint32 [simp]: "length (putUint32 v) = 4"
  by (simp add: putUint32_def)

lemma getUint16_put [simp]: "getUint16 (putUint16 v @ rest) = v"
proof (rule bit_word_eqI)
  fix n assume n: "n < LENGTH(16)"
  then show "bit (getUint16 (putUint16 v @ rest)) n = bit v n"
    by (cases "n < 8")
       (auto simp: getUint16_def putUint16_def bit_simps nth_append)
qed

lemma getUint32_put [simp]: "getUint32 (putUint32 v @ rest) = v"
proof (rule bit_word_eqI)
  fix n assume n: "n < LENGTH(32)"
  consider "n < 8" | "8 \<le> n" "n < 16" | "16 \<le> n" "n < 24" | "24 \<le> n" by linarith
  then show "bit (getUint32 (putUint32 v @ rest)) n = bit v n"
    by cases (use n in \<open>auto simp: getUint32_def putUint32_def bit_simps nth_append\<close>)
qed

lemma byte_bit_out: "8 \<le> n \<Longrightarrow> \<not> bit (b :: byte) n"
  using bit_imp_le_length [of b n] by auto

lemma list_2_eq: "length (bs :: bytes) = 2 \<Longrightarrow> bs = [bs ! 0, bs ! 1]"
  by (auto simp: numeral_2_eq_2 length_Suc_conv)

lemma list_4_eq: "length (bs :: bytes) = 4 \<Longrightarrow> bs = [bs ! 0, bs ! 1, bs ! 2, bs ! 3]"
  by (auto simp: numeral_eq_Suc length_Suc_conv)

lemma putUint16_get: assumes "length bs = 2" shows "putUint16 (getUint16 bs) = bs"
proof -
  have "putUint16 (getUint16 bs) = [bs ! 0, bs ! 1]"
    by (auto simp: getUint16_def putUint16_def bit_simps byte_bit_out
        intro!: bit_word_eqI)
  then show ?thesis using list_2_eq [OF assms] by simp
qed

lemma putUint32_get: assumes "length bs = 4" shows "putUint32 (getUint32 bs) = bs"
proof -
  have "putUint32 (getUint32 bs) = [bs ! 0, bs ! 1, bs ! 2, bs ! 3]"
    by (auto simp: getUint32_def putUint32_def bit_simps byte_bit_out
        intro!: bit_word_eqI)
  then show ?thesis using list_4_eq [OF assms] by simp
qed

lemma unat_of_nat_u16: "n < 65536 \<Longrightarrow> unat (of_nat n :: u16) = n"
  by (simp add: unat_of_nat)

lemma unat_of_nat_u32: "n < 4294967296 \<Longrightarrow> unat (of_nat n :: u32) = n"
  by (simp add: unat_of_nat)

section \<open>Arithmetic of Go's signed integers\<close>

text \<open>Go divides signed integers towards zero.\<close>

definition go_div :: "int \<Rightarrow> int \<Rightarrow> int" where
  "go_div a b = sgn a * sgn b * (\<bar>a\<bar> div \<bar>b\<bar>)"

lemma go_div_pos: "0 \<le> a \<Longrightarrow> 0 < b \<Longrightarrow> go_div a b = a div b"
  by (cases "a = 0") (auto simp: go_div_def)

section \<open>Buffered channels\<close>

text \<open>
  \<open>select { case ch <- x: ... default: ... }\<close> on a channel with a buffer of \<open>cap\<close> slots: the value
  is stored when a slot is free and dropped otherwise. The flag is the branch taken.
\<close>

definition chan_offer :: "nat \<Rightarrow> 'a list \<Rightarrow> 'a \<Rightarrow> 'a list \<times> bool" where
  "chan_offer cap q x = (if length q < cap then (q @ [x], True) else (q, False))"

text \<open>
  The contract a client of a non-blocking bounded queue relies on: a packet is appended when
  there is room, and otherwise refused with the queue's owner left as it was.
\<close>

locale bounded_queue =
  fixes offer :: "'q \<Rightarrow> 'p \<Rightarrow> 'q \<times> bool"
    and items :: "'q \<Rightarrow> 'p list"
    and slots :: "'q \<Rightarrow> nat"
  assumes offer_taken: "length (items q) < slots q \<Longrightarrow>
      snd (offer q p) \<and> items (fst (offer q p)) = items q @ [p]"
    and offer_refused: "slots q \<le> length (items q) \<Longrightarrow> offer q p = (q, False)"
    and offer_slots: "slots (fst (offer q p)) = slots q"
begin

lemma offer_accepts_iff: "snd (offer q p) \<longleftrightarrow> length (items q) < slots q"
  using offer_taken [of q p] offer_refused [of q p]
  by (cases "length (items q) < slots q") auto

lemma offer_bounded:
  assumes "length (items q) \<le> slots q"
  shows "length (items (fst (offer q p))) \<le> slots (fst (offer q p))"
  using assms offer_taken [of q p] offer_refused [of q p] offer_slots [of q p]
  by (cases "length (items q) < slots q") auto

lemma offers_items:
  "items (fold (\<lambda>p q. fst (offer q p)) ps q) = items q @ take (slots q - length (items q)) ps"
proof (induction ps arbitrary: q)
  case Nil
  then show ?case by simp
next
  case (Cons p ps)
  show ?case
  proof (cases "length (items q) < slots q")
    case True
    then have "slots q - length (items q) = Suc (slots q - Suc (length (items q)))" by simp
    then show ?thesis
      using offer_taken [OF True, of p] by (simp add: Cons.IH offer_slots)
  next
    case False
    then show ?thesis using offer_refused [of q p] by (simp add: Cons.IH)
  qed
qed

end

section \<open>Machines with an invariant\<close>

text \<open>
  A component whose operations interleave is a step relation; what its clients rely on is an
  invariant of its start states that every step keeps, and for some an order no step goes back in.
\<close>

locale machine =
  fixes start :: "'s \<Rightarrow> bool"
    and step :: "'s \<Rightarrow> 's \<Rightarrow> bool"
    and inv :: "'s \<Rightarrow> bool"
  assumes start_inv: "start s \<Longrightarrow> inv s"
    and step_inv: "inv s \<Longrightarrow> step s t \<Longrightarrow> inv t"
begin

lemma steps_inv: "step\<^sup>*\<^sup>* s t \<Longrightarrow> inv s \<Longrightarrow> inv t"
  by (induction rule: rtranclp_induct) (auto intro: step_inv)

lemma run_inv: "start s \<Longrightarrow> step\<^sup>*\<^sup>* s t \<Longrightarrow> inv t"
  by (rule steps_inv [OF _ start_inv])

end

locale monotone_machine = machine +
  fixes le :: "'s \<Rightarrow> 's \<Rightarrow> bool"
  assumes le_refl: "le s s"
    and le_trans: "le s t \<Longrightarrow> le t u \<Longrightarrow> le s u"
    and step_le: "inv s \<Longrightarrow> step s t \<Longrightarrow> le s t"
begin

lemma steps_le: "step\<^sup>*\<^sup>* s t \<Longrightarrow> inv s \<Longrightarrow> le s t"
  by (induction rule: rtranclp_induct) (auto intro: le_refl le_trans step_le steps_inv)

lemma run_le: "start s \<Longrightarrow> step\<^sup>*\<^sup>* s t \<Longrightarrow> step\<^sup>*\<^sup>* t u \<Longrightarrow> le t u"
  by (rule steps_le [OF _ run_inv])

end


section \<open>Simulation\<close>

text \<open>
  A detailed machine implements an abstract one when every step it makes in a state of its
  invariant is some steps, or none, of the abstract machine on the abstracted states.
\<close>

locale simulation =
  fixes cstep :: "'c \<Rightarrow> 'c \<Rightarrow> bool"
    and cinv :: "'c \<Rightarrow> bool"
    and astep :: "'a \<Rightarrow> 'a \<Rightarrow> bool"
    and abs :: "'c \<Rightarrow> 'a"
  assumes cstep_inv: "cinv s \<Longrightarrow> cstep s t \<Longrightarrow> cinv t"
    and cstep_sim: "cinv s \<Longrightarrow> cstep s t \<Longrightarrow> astep\<^sup>*\<^sup>* (abs s) (abs t)"
begin

lemma run_inv: "cstep\<^sup>*\<^sup>* s t \<Longrightarrow> cinv s \<Longrightarrow> cinv t"
  by (induction rule: rtranclp_induct) (auto intro: cstep_inv)

lemma run_sim: "cstep\<^sup>*\<^sup>* s t \<Longrightarrow> cinv s \<Longrightarrow> astep\<^sup>*\<^sup>* (abs s) (abs t)"
  by (induction rule: rtranclp_induct) (auto intro: rtranclp_trans cstep_sim run_inv)

end

end
