(* ===== verification/GoNet.thy ===== *)
theory GoNet
  imports Prelude
begin

text \<open>
  What the program uses of Go's standard library for addresses: \<open>net.ParseCIDR\<close> with the address
  parser of \<open>net/netip\<close> behind it, \<open>net.IPv4\<close>, \<open>IP.To4\<close>, \<open>IP.Mask\<close>, \<open>net.CIDRMask\<close>,
  \<open>IPMask.Size\<close> and \<open>IPNet.Contains\<close>. Strings are byte strings. A \<open>net.IP\<close> is a byte slice, the
  nil slice being \<open>[]\<close>. The lemmas say what a parsed prefix contains: the addresses of the same
  family that agree with it on its first bits.
\<close>

section \<open>Addresses and masks (net)\<close>

record ipnet =
  netIP :: bytes
  netMask :: bytes

definition v4InV6Prefix :: bytes where
  "v4InV6Prefix = replicate 10 0 @ [0xff, 0xff]"

definition net_IPv4 :: "byte \<Rightarrow> byte \<Rightarrow> byte \<Rightarrow> byte \<Rightarrow> bytes" where
  "net_IPv4 a b c d = v4InV6Prefix @ [a, b, c, d]"

definition ip_To4 :: "bytes \<Rightarrow> bytes option" where
  "ip_To4 ip =
     (if length ip = 4 then Some ip
      else if length ip = 16 \<and> take 12 ip = v4InV6Prefix then Some (drop 12 ip)
      else None)"

text \<open>The byte of \<open>CIDRMask\<close> when \<open>n\<close> ones are left.\<close>

definition mask_byte :: "nat \<Rightarrow> byte" where
  "mask_byte n = (if n \<ge> 8 then 0xff else NOT (drop_bit n 0xff))"

fun mask_bytes :: "nat \<Rightarrow> nat \<Rightarrow> bytes" where
  "mask_bytes 0 n = []"
| "mask_bytes (Suc l) n = mask_byte n # mask_bytes l (n - 8)"

definition net_CIDRMask :: "int \<Rightarrow> nat \<Rightarrow> bytes" where
  "net_CIDRMask ones nbits =
     (if nbits \<noteq> 32 \<and> nbits \<noteq> 128 then []
      else if ones < 0 \<or> ones > int nbits then []
      else mask_bytes (nbits div 8) (nat ones))"

definition zip_and :: "bytes \<Rightarrow> bytes \<Rightarrow> bytes" where
  "zip_and xs ys = map2 (AND) xs ys"

definition ip_Mask :: "bytes \<Rightarrow> bytes \<Rightarrow> bytes" where
  "ip_Mask ip msk =
     (let msk = (if length msk = 16 \<and> length ip = 4 \<and> take 12 msk = replicate 12 0xff
                  then drop 12 msk else msk);
          ip = (if length msk = 4 \<and> length ip = 16 \<and> take 12 ip = v4InV6Prefix
                then drop 12 ip else ip)
      in if length ip \<noteq> length msk then [] else zip_and ip msk)"

text \<open>\<open>simpleMaskLength\<close>: the number of leading ones, None for a mask that is not ones then zeros.\<close>

function leading_ones :: "nat \<Rightarrow> byte \<Rightarrow> nat \<times> byte" where
  "leading_ones n v = (if n \<ge> 8 \<or> \<not> bit v 7 then (n, v) else leading_ones (Suc n) (push_bit 1 v))"
  by pat_completeness auto
termination
  by (relation "measure (\<lambda>(n, v). 8 - n)") auto

declare leading_ones.simps [simp del]

fun simpleMaskLength :: "bytes \<Rightarrow> nat option" where
  "simpleMaskLength [] = Some 0"
| "simpleMaskLength (v # rest) =
     (if v = 0xff then map_option (\<lambda>n. n + 8) (simpleMaskLength rest)
      else let (n, v') = leading_ones 0 v
           in if v' \<noteq> 0 \<or> list_ex (\<lambda>b. b \<noteq> 0) rest then None else Some n)"

definition mask_Size :: "bytes \<Rightarrow> nat \<times> nat" where
  "mask_Size m = (case simpleMaskLength m of None \<Rightarrow> (0, 0) | Some ones \<Rightarrow> (ones, 8 * length m))"

definition networkNumberAndMask :: "ipnet \<Rightarrow> (bytes \<times> bytes) option" where
  "networkNumberAndMask n =
     (case (case ip_To4 (netIP n) of Some ip \<Rightarrow> Some ip
            | None \<Rightarrow> if length (netIP n) = 16 then Some (netIP n) else None) of
        None \<Rightarrow> None
      | Some ip \<Rightarrow>
          if length (netMask n) = 4 then (if length ip \<noteq> 4 then None else Some (ip, netMask n))
          else if length (netMask n) = 16
          then (if length ip = 4 then Some (ip, drop 12 (netMask n)) else Some (ip, netMask n))
          else None)"

definition ipnet_Contains :: "ipnet \<Rightarrow> bytes \<Rightarrow> bool" where
  "ipnet_Contains n ip =
     (let (nn, m) = (case networkNumberAndMask n of None \<Rightarrow> ([], []) | Some r \<Rightarrow> r);
          ip = (case ip_To4 ip of Some x \<Rightarrow> x | None \<Rightarrow> ip)
      in length ip = length nn \<and> zip_and nn m = zip_and ip m)"

section \<open>Parsing (net/netip, net)\<close>

definition is_digit :: "char \<Rightarrow> bool" where
  "is_digit c \<longleftrightarrow> CHR ''0'' \<le> c \<and> c \<le> CHR ''9''"

definition digit_val :: "char \<Rightarrow> nat" where
  "digit_val c = of_char c - of_char (CHR ''0'')"

text \<open>\<open>dtoi\<close>: the value, the rest behind the digits and whether it is a small enough number.\<close>

fun dtoi_loop :: "nat \<Rightarrow> string \<Rightarrow> (nat \<times> string) option" where
  "dtoi_loop n [] = Some (n, [])"
| "dtoi_loop n (c # s) =
     (if is_digit c
      then (let n' = n * 10 + digit_val c in if n' \<ge> 0xFFFFFF then None else dtoi_loop n' s)
      else Some (n, c # s))"

definition dtoi :: "string \<Rightarrow> (nat \<times> string) option" where
  "dtoi s = (if s = [] \<or> \<not> is_digit (hd s) then None else dtoi_loop 0 s)"

text \<open>
  \<open>parseIPv4Fields\<close>: \<open>val\<close> and \<open>digLen\<close> of the current octet, the octets before it. A dot at
  the start, at the end or behind another dot is a dot behind no digit, or a missing last digit.
\<close>

fun parseIPv4Fields :: "string \<Rightarrow> nat \<Rightarrow> nat \<Rightarrow> bytes \<Rightarrow> bytes option" where
  "parseIPv4Fields [] val digLen octets =
     (if length octets < 3 \<or> digLen = 0 then None else Some (octets @ [of_nat val]))"
| "parseIPv4Fields (c # s) val digLen octets =
     (if is_digit c
      then (if digLen = 1 \<and> val = 0 then None
            else let val' = val * 10 + digit_val c
                 in if val' > 255 then None else parseIPv4Fields s val' (digLen + 1) octets)
      else if c = CHR ''.''
      then (if digLen = 0 \<or> length octets = 3 then None
            else parseIPv4Fields s 0 0 (octets @ [of_nat val]))
      else None)"

definition hex_val :: "char \<Rightarrow> nat option" where
  "hex_val c =
     (if is_digit c then Some (digit_val c)
      else if CHR ''a'' \<le> c \<and> c \<le> CHR ''f'' then Some (of_char c - of_char (CHR ''a'') + 10)
      else if CHR ''A'' \<le> c \<and> c \<le> CHR ''F'' then Some (of_char c - of_char (CHR ''A'') + 10)
      else None)"

text \<open>One group: its value, the number of its digits and the rest; None when it is too long.\<close>

fun hex_group :: "string \<Rightarrow> nat \<Rightarrow> nat \<Rightarrow> (nat \<times> nat \<times> string) option" where
  "hex_group [] acc off = Some (acc, off, [])"
| "hex_group (c # s) acc off =
     (case hex_val c of
        None \<Rightarrow> Some (acc, off, c # s)
      | Some d \<Rightarrow> if off > 3 then None else hex_group s (acc * 16 + d) (off + 1))"

text \<open>
  The loop over the groups. \<open>ip\<close> holds the bytes parsed so far, \<open>ellipsis\<close> the position of the
  double colon; the result is the bytes, the ellipsis and the unparsed rest. The fuel is the
  number of groups that still fit.
\<close>

fun ipv6_groups :: "nat \<Rightarrow> string \<Rightarrow> bytes \<Rightarrow> nat option \<Rightarrow> (bytes \<times> nat option \<times> string) option" where
  "ipv6_groups 0 s ip ellipsis = Some (ip, ellipsis, s)"
| "ipv6_groups (Suc k) s ip ellipsis =
     (case hex_group s 0 0 of
        None \<Rightarrow> None
      | Some (acc, off, rest) \<Rightarrow>
          if off = 0 then None
          else if rest \<noteq> [] \<and> hd rest = CHR ''.''
          then (if ellipsis = None \<and> length ip \<noteq> 12 then None
                else if length ip + 4 > 16 then None
                else (case parseIPv4Fields s 0 0 [] of
                        None \<Rightarrow> None
                      | Some f \<Rightarrow> Some (ip @ f, ellipsis, [])))
          else let ip' = ip @ [of_nat (acc div 256), of_nat (acc mod 256)]
               in case rest of
                    [] \<Rightarrow> Some (ip', ellipsis, [])
                  | c # s1 \<Rightarrow>
                      if c \<noteq> CHR '':'' \<or> s1 = [] then None
                      else if hd s1 = CHR '':''
                      then (if ellipsis \<noteq> None then None
                            else if tl s1 = [] then Some (ip', Some (length ip'), [])
                            else ipv6_groups k (tl s1) ip' (Some (length ip')))
                      else ipv6_groups k s1 ip' ellipsis)"

definition ipv6_finish :: "bytes \<times> nat option \<times> string \<Rightarrow> bytes option" where
  "ipv6_finish r =
     (let (ip, ellipsis, s) = r
      in if s \<noteq> [] then None
         else case ellipsis of
                None \<Rightarrow> if length ip < 16 then None else Some ip
              | Some e \<Rightarrow> if length ip < 16
                          then Some (take e ip @ replicate (16 - length ip) 0 @ drop e ip)
                          else None)"

definition parseIPv6 :: "string \<Rightarrow> (bytes \<times> string) option" where
  "parseIPv6 txt =
     (let s = takeWhile (\<lambda>c. c \<noteq> CHR ''%'') txt; zone = drop (Suc (length s)) txt
      in if CHR ''%'' \<in> set txt \<and> zone = [] then None
         else if take 2 s = [CHR '':'', CHR '':'']
         then (if drop 2 s = [] then Some (replicate 16 0, zone)
               else map_option (\<lambda>a. (a, zone))
                      (Option.bind (ipv6_groups 8 (drop 2 s) [] (Some 0)) ipv6_finish))
         else map_option (\<lambda>a. (a, zone)) (Option.bind (ipv6_groups 8 s [] None) ipv6_finish))"

text \<open>\<open>netip.ParseAddr\<close>: 4 or 16 bytes, and the zone.\<close>

definition parseAddr :: "string \<Rightarrow> (bytes \<times> string) option" where
  "parseAddr s =
     (case dropWhile (\<lambda>c. c \<notin> {CHR ''.'', CHR '':'', CHR ''%''}) s of
        [] \<Rightarrow> None
      | c # _ \<Rightarrow> if c = CHR ''.'' then map_option (\<lambda>a. (a, [])) (parseIPv4Fields s 0 0 [])
                 else if c = CHR '':'' then parseIPv6 s
                 else None)"

definition addr_As16 :: "bytes \<Rightarrow> bytes" where
  "addr_As16 a = (if length a = 4 then v4InV6Prefix @ a else a)"

definition net_ParseCIDR :: "string \<Rightarrow> (bytes \<times> ipnet) option" where
  "net_ParseCIDR s =
     (let addr = takeWhile (\<lambda>c. c \<noteq> CHR ''/'') s; bits = drop (Suc (length addr)) s
      in if CHR ''/'' \<notin> set s then None
         else case parseAddr addr of
                None \<Rightarrow> None
              | Some (ipAddr, zone) \<Rightarrow>
                  if zone \<noteq> [] then None
                  else (case dtoi bits of
                          None \<Rightarrow> None
                        | Some (n, rest) \<Rightarrow>
                            if rest \<noteq> [] \<or> n > 8 * length ipAddr then None
                            else let m = net_CIDRMask (int n) (8 * length ipAddr);
                                     addr16 = addr_As16 ipAddr
                                 in Some (addr16, \<lparr>netIP = ip_Mask addr16 m, netMask = m\<rparr>)))"

section \<open>What masks and prefixes mean\<close>

text \<open>The bits of an address, most significant first.\<close>

definition byte_bits :: "byte \<Rightarrow> bool list" where
  "byte_bits b = map (bit b) [7, 6, 5, 4, 3, 2, 1, 0]"

definition bits_of :: "bytes \<Rightarrow> bool list" where
  "bits_of bs = concat (map byte_bits bs)"

lemma byte_bits_length [simp]: "length (byte_bits b) = 8"
  by (simp add: byte_bits_def)

lemma bits_of_simps [simp]: "bits_of [] = []" "bits_of (b # bs) = byte_bits b @ bits_of bs"
  by (simp_all add: bits_of_def)

lemma bits_of_append [simp]: "bits_of (xs @ ys) = bits_of xs @ bits_of ys"
  by (simp add: bits_of_def)

lemma length_bits_of [simp]: "length (bits_of bs) = 8 * length bs"
  by (induction bs) auto

lemma mask_bytes_length [simp]: "length (mask_bytes l n) = l"
  by (induction l arbitrary: n) auto

lemma mask_bytes_step: "0 < l \<Longrightarrow> mask_bytes l n = mask_byte n # mask_bytes (l - 1) (n - 8)"
  by (cases l) auto

lemma nat_less_8: "(n::nat) < 8 \<longleftrightarrow> n \<in> {0, 1, 2, 3, 4, 5, 6, 7}"
  by auto

lemma byte_255: "(255 :: byte) = mask 8"
  by (simp add: mask_eq_exp_minus_1)

lemma bit_mask_byte: "j < 8 \<Longrightarrow> bit (mask_byte n) j \<longleftrightarrow> 8 - n \<le> j"
  unfolding mask_byte_def byte_255
  by (cases "8 \<le> n") (auto simp: bit_mask_iff bit_not_iff bit_drop_bit_eq)

lemma byte_masked_eq:
  "x AND mask_byte n = y AND mask_byte n \<longleftrightarrow> take n (byte_bits x) = take n (byte_bits y)"
proof -
  have "x AND mask_byte n = y AND mask_byte n \<longleftrightarrow> (\<forall>j<8. 8 - n \<le> j \<longrightarrow> bit x j = bit y j)"
    by (auto simp: bit_eq_iff [of "x AND mask_byte n"] bit_and_iff bit_mask_byte)
  also have "\<dots> \<longleftrightarrow> (\<forall>i<8. i < n \<longrightarrow> bit x (7 - i) = bit y (7 - i))"
  proof safe
    fix i :: nat assume "\<forall>j<8. 8 - n \<le> j \<longrightarrow> bit x j = bit y j" "i < 8" "i < n"
    then show "bit x (7 - i) \<Longrightarrow> bit y (7 - i)" "bit y (7 - i) \<Longrightarrow> bit x (7 - i)" by simp_all
  next
    fix j :: nat assume a: "\<forall>i<8. i < n \<longrightarrow> bit x (7 - i) = bit y (7 - i)" "j < 8" "8 - n \<le> j"
    have "bit x (7 - (7 - j)) = bit y (7 - (7 - j))" using a(2,3) by (intro a(1) [rule_format]) auto
    then show "bit x j \<Longrightarrow> bit y j" "bit y j \<Longrightarrow> bit x j" using a(2) by simp_all
  qed
  also have "\<dots> \<longleftrightarrow> take n (byte_bits x) = take n (byte_bits y)"
  proof -
    have "byte_bits z ! i = bit z (7 - i)" if "i < 8" for z i
      using that unfolding nat_less_8 byte_bits_def by auto
    then show ?thesis by (auto simp: list_eq_iff_nth_eq)
  qed
  finally show ?thesis .
qed

lemma zip_and_mask_eq:
  "length xs = l \<Longrightarrow> length ys = l \<Longrightarrow>
   zip_and xs (mask_bytes l n) = zip_and ys (mask_bytes l n) \<longleftrightarrow> take n (bits_of xs) = take n (bits_of ys)"
proof (induction l arbitrary: xs ys n)
  case 0
  then show ?case by simp
next
  case (Suc l)
  then obtain x xs' y ys' where [simp]: "xs = x # xs'" "ys = y # ys'"
    by (auto simp: length_Suc_conv)
  show ?case
    using Suc by (simp add: zip_and_def byte_masked_eq)
qed

lemma zip_and_length [simp]: "length (zip_and xs ys) = min (length xs) (length ys)"
  by (simp add: zip_and_def)

lemma zip_and_idem: "zip_and (zip_and xs m) m = zip_and xs m"
  by (induction xs m rule: list_induct2') (auto simp: zip_and_def and.assoc)

lemma zip_and_drop: "drop k (zip_and xs ys) = zip_and (drop k xs) (drop k ys)"
  by (simp add: zip_and_def drop_map drop_zip)

lemma mask_bytes_drop: "drop k (mask_bytes l n) = mask_bytes (l - k) (n - 8 * k)"
proof (induction k arbitrary: l n)
  case (Suc k)
  then show ?case by (cases l) (auto simp: algebra_simps)
qed simp

lemma mask_byte_zero [simp]: "mask_byte 0 = 0"
  by (simp add: mask_byte_def)

lemma mask_bytes_zero: "mask_bytes l 0 = replicate l 0"
  by (induction l) auto

lemma leading_ones_mask_byte: "n < 8 \<Longrightarrow> leading_ones 0 (mask_byte n) = (n, 0)"
  unfolding nat_less_8 mask_byte_def
  by (elim insertE emptyE) (simp_all add: leading_ones.simps drop_bit_eq_div)

lemma mask_byte_full: "mask_byte n = 255 \<longleftrightarrow> 8 \<le> n"
proof
  assume "mask_byte n = 255"
  then have "bit (mask_byte n) 0" by simp
  then show "8 \<le> n" by (simp add: bit_mask_byte del: bit_0)
qed (simp add: mask_byte_def)

lemma simpleMaskLength_mask: "n \<le> 8 * l \<Longrightarrow> simpleMaskLength (mask_bytes l n) = Some n"
proof (induction l arbitrary: n)
  case (Suc l)
  show ?case
  proof (cases "8 \<le> n")
    case True
    with Suc show ?thesis by (simp add: mask_byte_full)
  next
    case False
    then have "n - 8 = 0" by simp
    with False show ?thesis
      by (simp add: mask_byte_full leading_ones_mask_byte mask_bytes_zero list_ex_iff)
  qed
qed simp

lemma mask_Size_mask: "n \<le> 8 * l \<Longrightarrow> mask_Size (mask_bytes l n) = (n, 8 * l)"
  by (simp add: mask_Size_def simpleMaskLength_mask)

section \<open>What ParseCIDR returns\<close>

lemma parseIPv4Fields_length: "parseIPv4Fields s v d os = Some a \<Longrightarrow> length os \<le> 3 \<Longrightarrow> length a = 4"
  by (induction s v d os rule: parseIPv4Fields.induct) (auto simp: Let_def split: if_splits)

lemma ipv6_groups_length:
  "ipv6_groups k s ip e = Some (ip', e', s') \<Longrightarrow> length ip + 2 * k \<le> 16 \<Longrightarrow>
   (case e of None \<Rightarrow> True | Some x \<Rightarrow> x \<le> length ip) \<Longrightarrow>
   length ip' \<le> 16 \<and> (case e' of None \<Rightarrow> True | Some x \<Rightarrow> x \<le> length ip')"
proof (induction k arbitrary: s ip e)
  case 0
  then show ?case by auto
next
  case (Suc k)
  from Suc.prems(1) obtain acc off rest where g: "hex_group s 0 0 = Some (acc, off, rest)" "off \<noteq> 0"
    by (auto split: option.splits if_splits)
  let ?ip = "ip @ [of_nat (acc div 256), of_nat (acc mod 256)]"
  show ?case
  proof (cases "rest \<noteq> [] \<and> hd rest = CHR ''.''")
    case True
    with Suc.prems g show ?thesis
      by (auto simp del: parseIPv4Fields.simps split: if_splits option.splits
          dest: parseIPv4Fields_length)
  next
    case dot: False
    show ?thesis
    proof (cases rest)
      case Nil
      with dot g Suc.prems show ?thesis by (auto split: option.splits)
    next
      case (Cons c s1)
      with dot g Suc.prems(1) have c: "c = CHR '':''" "s1 \<noteq> []" by (auto simp: Let_def split: if_splits)
      consider (colon) "hd s1 = CHR '':''" | (other) "hd s1 \<noteq> CHR '':''" by blast
      then show ?thesis
      proof cases
        case colon
        show ?thesis
        proof (cases "tl s1 = []")
          case True
          with colon c Cons dot g Suc.prems show ?thesis by (auto simp: Let_def split: if_splits)
        next
          case False
          with colon c Cons dot g Suc.prems(1)
          have "ipv6_groups k (tl s1) ?ip (Some (length ?ip)) = Some (ip', e', s')"
            by (simp add: Let_def split: if_splits)
          from Suc.IH [OF this] Suc.prems(2) show ?thesis by simp
        qed
      next
        case other
        with c Cons dot g Suc.prems(1) have "ipv6_groups k s1 ?ip e = Some (ip', e', s')"
          by (simp add: Let_def split: if_splits)
        from Suc.IH [OF this] Suc.prems(2,3) show ?thesis by (auto split: option.splits)
      qed
    qed
  qed
qed

lemma ipv6_finish_length:
  assumes "ipv6_finish (ip, e, s) = Some a" "length ip \<le> 16" "case e of None \<Rightarrow> True | Some x \<Rightarrow> x \<le> length ip"
  shows "length a = 16"
  using assms by (auto simp: ipv6_finish_def split: if_splits option.splits)

lemma ipv6_bind_length:
  assumes "Option.bind (ipv6_groups 8 s [] e) ipv6_finish = Some a" "e = None \<or> e = Some 0"
  shows "length a = 16"
proof -
  from assms(1) obtain ip e' s' where g: "ipv6_groups 8 s [] e = Some (ip, e', s')"
    and f: "ipv6_finish (ip, e', s') = Some a"
    by (auto simp: Option.bind_eq_Some_conv)
  from ipv6_groups_length [OF g] assms(2) show ?thesis
    by (intro ipv6_finish_length [OF f]) auto
qed

lemma parseIPv6_length: "parseIPv6 s = Some (a, zone) \<Longrightarrow> length a = 16"
  by (auto simp: parseIPv6_def Let_def split: if_splits dest: ipv6_bind_length)

lemma parseAddr_length: "parseAddr s = Some (a, zone) \<Longrightarrow> length a = 4 \<or> length a = 16"
  by (auto simp: parseAddr_def split: list.splits if_splits dest: parseIPv4Fields_length parseIPv6_length)

lemma ParseCIDR_parts:
  assumes "net_ParseCIDR s = Some (ip, n)"
  obtains a k where "length a = 4 \<or> length a = 16" "k \<le> 8 * length a" "ip = addr_As16 a"
    "n = \<lparr>netIP = ip_Mask (addr_As16 a) (net_CIDRMask (int k) (8 * length a)),
           netMask = net_CIDRMask (int k) (8 * length a)\<rparr>"
proof -
  let ?addr = "takeWhile (\<lambda>c. c \<noteq> CHR ''/'') s"
  from assms obtain a zone where a: "parseAddr ?addr = Some (a, zone)"
    by (auto simp: net_ParseCIDR_def Let_def split: if_splits option.splits)
  with assms obtain k rest where k: "dtoi (drop (Suc (length ?addr)) s) = Some (k, rest)"
    by (auto simp: net_ParseCIDR_def Let_def split: if_splits option.splits)
  show ?thesis
    by (rule that [of a k]) (use assms parseAddr_length [OF a] in
      \<open>auto simp: net_ParseCIDR_def Let_def a k split: if_splits\<close>)
qed

text \<open>The two shapes of a parsed prefix: four bytes, or sixteen.\<close>

lemma ParseCIDR_shape:
  assumes "net_ParseCIDR s = Some (ip, n)"
  obtains (v4) a k where "length a = 4" "k \<le> 32" "n = \<lparr>netIP = zip_and a (mask_bytes 4 k), netMask = mask_bytes 4 k\<rparr>"
  | (v6) a k where "length a = 16" "k \<le> 128" "n = \<lparr>netIP = zip_and a (mask_bytes 16 k), netMask = mask_bytes 16 k\<rparr>"
proof -
  from assms obtain a zone k where a: "length a = 4 \<or> length a = 16" "k \<le> 8 * length a"
    and n: "n = \<lparr>netIP = ip_Mask (addr_As16 a) (net_CIDRMask (int k) (8 * length a)),
                netMask = net_CIDRMask (int k) (8 * length a)\<rparr>"
    by (rule ParseCIDR_parts) blast
  from a(1) show ?thesis
  proof
    assume l: "length a = 4"
    then have "n = \<lparr>netIP = zip_and a (mask_bytes 4 k), netMask = mask_bytes 4 k\<rparr>"
      using n a(2) by (simp add: net_CIDRMask_def addr_As16_def ip_Mask_def v4InV6Prefix_def)
    with l a(2) show ?thesis using v4 by simp
  next
    assume l: "length a = 16"
    then have "n = \<lparr>netIP = zip_and a (mask_bytes 16 k), netMask = mask_bytes 16 k\<rparr>"
      using n a(2) by (simp add: net_CIDRMask_def addr_As16_def ip_Mask_def)
    with l a(2) show ?thesis using v6 by simp
  qed
qed

section \<open>Evaluating concrete prefixes\<close>

text \<open>What the simplifier needs to run the parser on a literal.\<close>

lemmas ipv6_groups_numeral = ipv6_groups.simps(2) [of "pred_numeral k" for k, folded numeral_eq_Suc]

lemma replicate_numeral_Cons: "replicate (numeral k) x = x # replicate (pred_numeral k) x"
  by (simp add: numeral_eq_Suc)

lemmas parse_eval = net_ParseCIDR_def parseAddr_def is_digit_def digit_val_def dtoi_def
  less_eq_char_def less_char_def Let_def net_CIDRMask_def mask_byte_def ip_Mask_def zip_and_def
  addr_As16_def v4InV6Prefix_def parseIPv6_def hex_val_def ipv6_finish_def drop_bit_eq_div
  mask_bytes_step ipv6_groups_numeral replicate_numeral_Cons

end
