(* ===== verification/Config.thy ===== *)
theory Config
  imports GoNet
begin

text \<open>
  internal/tun/config.go: the configuration records, the defaults, the validation with one error
  per \<open>return\<close>, the credentials and the transport mode of a peer. A Go \<open>int\<close>, \<open>int64\<close> or
  \<open>time.Duration\<close> (in nanoseconds) is an \<open>int\<close>: the code only compares them here. YAML decoding
  is gopkg.in/yaml.v3's; the record \<open>password_sdk\<close> holds what the code takes from turntf-go: the
  two password constructors, their validation and the default stream window.
\<close>

section \<open>User and session references (turntf-go)\<close>

datatype user_ref = UserRef (NodeID: int) (UserID: int)
datatype session_ref = SessionRef (ServingNodeID: int) (SessionID: string)

text \<open>User references in the order \<open>shouldDial\<close> compares them: the node first, then the user.\<close>

instantiation user_ref :: linorder
begin

definition less_eq_user_ref :: "user_ref \<Rightarrow> user_ref \<Rightarrow> bool" where
  "less_eq_user_ref a b \<longleftrightarrow> NodeID a < NodeID b \<or> NodeID a = NodeID b \<and> UserID a \<le> UserID b"

definition less_user_ref :: "user_ref \<Rightarrow> user_ref \<Rightarrow> bool" where
  "less_user_ref a b \<longleftrightarrow> NodeID a < NodeID b \<or> NodeID a = NodeID b \<and> UserID a < UserID b"

instance
  by standard (auto simp: less_eq_user_ref_def less_user_ref_def user_ref.expand)

end

section \<open>Strings\<close>

text \<open>
  \<open>strings.TrimSpace\<close>: the UTF-8 sequences of the runes \<open>unicode.IsSpace\<close> accepts are removed at
  both ends. No sequence is the end of another rune's, so matching bytes is matching runes.
\<close>

definition space_runes :: "string list" where
  "space_runes = map (map (char_of :: nat \<Rightarrow> char))
     ([[9], [10], [11], [12], [13], [32], [0xC2, 0x85], [0xC2, 0xA0], [0xE1, 0x9A, 0x80],
       [0xE2, 0x80, 0xA8], [0xE2, 0x80, 0xA9], [0xE2, 0x80, 0xAF], [0xE2, 0x81, 0x9F],
       [0xE3, 0x80, 0x80]] @ map (\<lambda>x. [0xE2, 0x80, x]) [0x80 ..< 0x8B])"

lemma find_shorter:
  assumes "find (\<lambda>w. w \<noteq> [] \<and> take (length w) s = w) ws = Some w"
  shows "length (drop (length w) s) < length s"
proof -
  from assms have "w \<noteq> []" "take (length w) s = w" by (auto simp: find_Some_iff)
  moreover from this have "s \<noteq> []" by auto
  ultimately show ?thesis by simp
qed

function trim_front :: "string list \<Rightarrow> string \<Rightarrow> string" where
  "trim_front ws s =
     (case find (\<lambda>w. w \<noteq> [] \<and> take (length w) s = w) ws of
        None \<Rightarrow> s
      | Some w \<Rightarrow> trim_front ws (drop (length w) s))"
  by pat_completeness auto
termination
  by (relation "measure (\<lambda>(ws, s). length s)") (use find_shorter in auto)

declare trim_front.simps [simp del]

definition strings_TrimSpace :: "string \<Rightarrow> string" where
  "strings_TrimSpace s = rev (trim_front (map rev space_runes) (rev (trim_front space_runes s)))"

text \<open>A string that begins and ends with a printable ASCII character is left alone.\<close>

lemma trim_front_plain:
  assumes "\<And>w. w \<in> set ws \<Longrightarrow> hd w \<noteq> hd s" "s \<noteq> []"
  shows "trim_front ws s = s"
proof -
  have "find (\<lambda>w. w \<noteq> [] \<and> take (length w) s = w) ws = None"
    using assms by (auto simp: find_None_iff) (metis hd_take length_greater_0_conv)
  then show ?thesis by (simp add: trim_front.simps)
qed

lemma space_runes_hd: "w \<in> set space_runes \<Longrightarrow> (of_char (hd w) :: nat) \<notin> {33..126}"
  by (auto simp: space_runes_def)

lemma space_runes_last: "w \<in> set (map rev space_runes) \<Longrightarrow> (of_char (hd w) :: nat) \<notin> {33..126}"
  by (auto simp: space_runes_def)

lemma TrimSpace_plain:
  assumes "s \<noteq> []" "(of_char (hd s) :: nat) \<in> {33..126}" "(of_char (last s) :: nat) \<in> {33..126}"
  shows "strings_TrimSpace s = s"
proof -
  have "trim_front space_runes s = s"
  proof (rule trim_front_plain)
    fix w assume "w \<in> set space_runes"
    from space_runes_hd [OF this] assms(2) show "hd w \<noteq> hd s" by auto
  qed (rule assms(1))
  moreover have "trim_front (map rev space_runes) (rev s) = rev s"
  proof (rule trim_front_plain)
    fix w assume "w \<in> set (map rev space_runes)"
    from space_runes_last [OF this] assms(3) show "hd w \<noteq> hd (rev s)" by (auto simp: hd_rev assms(1))
  qed (simp add: assms(1))
  ultimately show ?thesis by (simp add: strings_TrimSpace_def)
qed

section \<open>The configuration\<close>

record user_ref_config =
  ur_NodeID :: int
  ur_UserID :: int

record password_config =
  pw_Source :: string
  pw_Value :: string

record credentials_config =
  cr_NodeID :: int
  cr_UserID :: int
  cr_LoginName :: string
  cr_Password :: password_config

record turntf_config =
  BaseURL :: string
  Credentials :: credentials_config
  RequestTimeout :: int
  PingInterval :: int

record overlay_config =
  ov_Enabled :: bool
  ov_Database :: string
  ov_StaticAddress :: string
  ov_PoolStart :: string
  ov_PoolEnd :: string
  ov_LeaseDuration :: int

record tun_config =
  tun_Name :: string
  tun_MTU :: int
  tun_TxQueueLength :: int
  tun_RouteCongestionControl :: string
  tun_Addresses :: "string list"
  tun_BringUp :: bool

record transport_config =
  tr_Mode :: string
  tr_SendQueueSize :: int
  tr_MaxPacketBytes :: int
  tr_DialRetryInterval :: int
  tr_RelayWindowSize :: int
  tr_StreamWindowBytes :: int

record peer_config =
  peer_Name :: string
  peer_User :: user_ref_config
  peer_Routes :: "string list"
  peer_TransportMode :: string
  peer_DialPolicy :: string

record config =
  cfg_Turntf :: turntf_config
  cfg_Tun :: tun_config
  cfg_Transport :: transport_config
  cfg_Overlay :: overlay_config
  cfg_Peers :: "peer_config list"

record 'pw password_sdk =
  PlainPassword :: "string \<Rightarrow> string + 'pw"
  HashedPassword :: "string \<Rightarrow> 'pw"
  ValidatePassword :: "'pw \<Rightarrow> string option"
  DefaultStreamWindow :: int

definition second :: int where "second = 1000000000"
definition minute :: int where "minute = 60 * second"

section \<open>Defaults\<close>

definition or_default :: "int \<Rightarrow> int \<Rightarrow> int" where
  "or_default d x = (if x = 0 then d else x)"

definition or_default_string :: "string \<Rightarrow> string \<Rightarrow> string" where
  "or_default_string d x = (if x = '''' then d else x)"

definition ApplyDefaults :: "'pw password_sdk \<Rightarrow> config \<Rightarrow> config" where
  "ApplyDefaults sdk c =
     c\<lparr>cfg_Transport := (cfg_Transport c)
          \<lparr>tr_Mode := or_default_string ''auto'' (tr_Mode (cfg_Transport c)),
           tr_SendQueueSize := or_default 4096 (tr_SendQueueSize (cfg_Transport c)),
           tr_MaxPacketBytes := or_default 65535 (tr_MaxPacketBytes (cfg_Transport c)),
           tr_DialRetryInterval := or_default (3 * second) (tr_DialRetryInterval (cfg_Transport c)),
           tr_RelayWindowSize := or_default 32 (tr_RelayWindowSize (cfg_Transport c)),
           tr_StreamWindowBytes :=
             or_default (DefaultStreamWindow sdk) (tr_StreamWindowBytes (cfg_Transport c))\<rparr>,
       cfg_Turntf := (cfg_Turntf c)
          \<lparr>RequestTimeout := or_default (10 * second) (RequestTimeout (cfg_Turntf c)),
           PingInterval := or_default (30 * second) (PingInterval (cfg_Turntf c))\<rparr>,
       cfg_Overlay := (cfg_Overlay c)
          \<lparr>ov_LeaseDuration := or_default (10 * minute) (ov_LeaseDuration (cfg_Overlay c))\<rparr>,
       cfg_Tun := (cfg_Tun c)
          \<lparr>tun_Name := or_default_string ''turntf0'' (tun_Name (cfg_Tun c)),
           tun_MTU := or_default 1400 (tun_MTU (cfg_Tun c)),
           tun_TxQueueLength := or_default 500 (tun_TxQueueLength (cfg_Tun c))\<rparr>,
       cfg_Peers := map (\<lambda>p. p\<lparr>peer_DialPolicy := or_default_string ''auto'' (peer_DialPolicy p)\<rparr>)
                      (cfg_Peers c)\<rparr>"

section \<open>Credentials\<close>

datatype config_error =
    PasswordValueRequired | PasswordSourceUnknown | PasswordRejected string
  | ExactlyOneCredential | CredentialIdsTogether
  | BaseURLRequired | CredentialsError config_error
  | OverlayDatabaseRequired | OverlayAddressRequired | OverlayLeaseTooShort
  | MTURange | CongestionName | TxQueueRange | TransportMode | SendQueueSize | MaxPacketRange
  | DialRetryInterval | RelayWindowRange | StreamWindowRange | TunAddress string
  | PeerName nat | PeerUser nat | DuplicatePeer user_ref | PeerTransportMode nat
  | PeerDialPolicy nat | PeerRoutesEmpty nat | PeerRoute nat string

record 'pw credentials =
  c_NodeID :: int
  c_UserID :: int
  c_LoginName :: string
  c_Password :: 'pw

definition Password_ToTurntf :: "'pw password_sdk \<Rightarrow> password_config \<Rightarrow> config_error + 'pw" where
  "Password_ToTurntf sdk p =
     (if pw_Source p = ''plain''
      then (case PlainPassword sdk (pw_Value p) of Inl e \<Rightarrow> Inl (PasswordRejected e) | Inr w \<Rightarrow> Inr w)
      else if pw_Source p = ''hashed''
      then (if strings_TrimSpace (pw_Value p) = '''' then Inl PasswordValueRequired
            else Inr (HashedPassword sdk (pw_Value p)))
      else Inl PasswordSourceUnknown)"

definition Credentials_ToTurntf ::
    "'pw password_sdk \<Rightarrow> credentials_config \<Rightarrow> config_error + 'pw credentials" where
  "Credentials_ToTurntf sdk c =
     (case Password_ToTurntf sdk (cr_Password c) of
        Inl e \<Rightarrow> Inl e
      | Inr p \<Rightarrow>
          let out = \<lparr>c_NodeID = cr_NodeID c, c_UserID = cr_UserID c,
                     c_LoginName = strings_TrimSpace (cr_LoginName c), c_Password = p\<rparr>
          in case ValidatePassword sdk (c_Password out) of
               Some e \<Rightarrow> Inl (PasswordRejected e)
             | None \<Rightarrow>
                 let byID = (c_NodeID out \<noteq> 0 \<or> c_UserID out \<noteq> 0); byName = (c_LoginName out \<noteq> '''')
                 in if byID = byName then Inl ExactlyOneCredential
                    else if byID \<and> (c_NodeID out = 0 \<or> c_UserID out = 0) then Inl CredentialIdsTogether
                    else Inr out)"

definition UserRef_ToTurntf :: "user_ref_config \<Rightarrow> user_ref" where
  "UserRef_ToTurntf u = UserRef (ur_NodeID u) (ur_UserID u)"

section \<open>Validation\<close>

definition validTransportMode :: "string \<Rightarrow> bool" where
  "validTransportMode mode \<longleftrightarrow> mode = ''auto'' \<or> mode = ''stream'' \<or> mode = ''relay''"

definition effectiveTransportMode :: "peer_config \<Rightarrow> string \<Rightarrow> string" where
  "effectiveTransportMode p globalMode =
     (if peer_TransportMode p \<noteq> '''' then peer_TransportMode p else globalMode)"

definition validCongestionName :: "string \<Rightarrow> bool" where
  "validCongestionName name \<longleftrightarrow>
     \<not> length name > 15 \<and>
     list_all (\<lambda>r. r \<ge> CHR ''a'' \<and> r \<le> CHR ''z'' \<or> r \<ge> CHR ''0'' \<and> r \<le> CHR ''9'' \<or> r = CHR ''_'') name"

fun validate_addresses :: "string list \<Rightarrow> config_error option" where
  "validate_addresses [] = None"
| "validate_addresses (a # as) =
     (if net_ParseCIDR a = None then Some (TunAddress a) else validate_addresses as)"

fun validate_routes :: "nat \<Rightarrow> string list \<Rightarrow> config_error option" where
  "validate_routes i [] = None"
| "validate_routes i (r # rs) =
     (if net_ParseCIDR r = None then Some (PeerRoute i r) else validate_routes i rs)"

text \<open>The loop over the peers; \<open>seen\<close> is the set of the users met so far.\<close>

fun validate_peers :: "nat \<Rightarrow> user_ref set \<Rightarrow> peer_config list \<Rightarrow> config_error option" where
  "validate_peers i seen [] = None"
| "validate_peers i seen (p # ps) =
     (if strings_TrimSpace (peer_Name p) = '''' then Some (PeerName i)
      else let u = UserRef_ToTurntf (peer_User p)
           in if NodeID u = 0 \<or> UserID u = 0 then Some (PeerUser i)
              else if u \<in> seen then Some (DuplicatePeer u)
              else if peer_TransportMode p \<noteq> '''' \<and> \<not> validTransportMode (peer_TransportMode p)
              then Some (PeerTransportMode i)
              else if peer_DialPolicy p \<noteq> ''auto'' \<and> peer_DialPolicy p \<noteq> ''always'' \<and>
                      peer_DialPolicy p \<noteq> ''never'' then Some (PeerDialPolicy i)
              else if length (peer_Routes p) = 0 then Some (PeerRoutesEmpty i)
              else case validate_routes i (peer_Routes p) of
                     Some e \<Rightarrow> Some e
                   | None \<Rightarrow> validate_peers (Suc i) (insert u seen) ps)"

definition validate_overlay :: "overlay_config \<Rightarrow> config_error option" where
  "validate_overlay v =
     (if ov_Enabled v
      then if strings_TrimSpace (ov_Database v) = '''' then Some OverlayDatabaseRequired
           else if ov_StaticAddress v = '''' \<and> (ov_PoolStart v = '''' \<or> ov_PoolEnd v = '''')
           then Some OverlayAddressRequired
           else if ov_LeaseDuration v < minute then Some OverlayLeaseTooShort
           else None
      else None)"

definition Validate :: "'pw password_sdk \<Rightarrow> config \<Rightarrow> config_error option" where
  "Validate sdk c =
     (let tun = cfg_Tun c; tr = cfg_Transport c in
      if strings_TrimSpace (BaseURL (cfg_Turntf c)) = '''' then Some BaseURLRequired
      else case Credentials_ToTurntf sdk (Credentials (cfg_Turntf c)) of
        Inl e \<Rightarrow> Some (CredentialsError e)
      | Inr _ \<Rightarrow> (case validate_overlay (cfg_Overlay c) of
          Some e \<Rightarrow> Some e
        | None \<Rightarrow>
            if tun_MTU tun < 576 \<or> tun_MTU tun > 65535 then Some MTURange
            else if \<not> validCongestionName (tun_RouteCongestionControl tun) then Some CongestionName
            else if tun_TxQueueLength tun < 1 \<or> tun_TxQueueLength tun > 100000 then Some TxQueueRange
            else if \<not> validTransportMode (tr_Mode tr) then Some TransportMode
            else if tr_SendQueueSize tr < 1 then Some SendQueueSize
            else if tr_MaxPacketBytes tr < tun_MTU tun \<or> tr_MaxPacketBytes tr > 65535
            then Some MaxPacketRange
            else if tr_DialRetryInterval tr \<le> 0 then Some DialRetryInterval
            else if tr_RelayWindowSize tr < 1 \<or> tr_RelayWindowSize tr > 256 then Some RelayWindowRange
            else if tr_StreamWindowBytes tr < 256 * 1024 \<or> tr_StreamWindowBytes tr > 64 * 1024 * 1024
            then Some StreamWindowRange
            else case validate_addresses (tun_Addresses tun) of
                   Some e \<Rightarrow> Some e
                 | None \<Rightarrow> validate_peers 0 {} (cfg_Peers c)))"

text \<open>\<open>LoadConfig\<close> on what the file system and the YAML decoder give for the path.\<close>

datatype load_error = ReadFailed string | YamlFailed string | InvalidConfig config_error

definition LoadConfig ::
    "'pw password_sdk \<Rightarrow> (string \<Rightarrow> string + string) \<Rightarrow> (string \<Rightarrow> string + config) \<Rightarrow> string \<Rightarrow>
     load_error + config" where
  "LoadConfig sdk readFile unmarshal path =
     (case readFile path of
        Inl e \<Rightarrow> Inl (ReadFailed e)
      | Inr data \<Rightarrow> (case unmarshal data of
          Inl e \<Rightarrow> Inl (YamlFailed e)
        | Inr c0 \<Rightarrow>
            let c = ApplyDefaults sdk c0
            in case Validate sdk c of Some e \<Rightarrow> Inl (InvalidConfig e) | None \<Rightarrow> Inr c))"

section \<open>What validation guarantees\<close>

lemma or_default_idem [simp]: "or_default d (or_default d x) = or_default d x"
  by (simp add: or_default_def)

lemma or_default_string_idem [simp]: "or_default_string d (or_default_string d x) = or_default_string d x"
  by (simp add: or_default_string_def)

lemma ApplyDefaults_idem: "ApplyDefaults sdk (ApplyDefaults sdk c) = ApplyDefaults sdk c"
  by (simp add: ApplyDefaults_def)

lemma validate_addresses_None: "validate_addresses as = None \<longleftrightarrow> list_all (\<lambda>a. net_ParseCIDR a \<noteq> None) as"
  by (induction as) auto

lemma validate_routes_None: "validate_routes i rs = None \<longleftrightarrow> list_all (\<lambda>r. net_ParseCIDR r \<noteq> None) rs"
  by (induction rs) auto

text \<open>What a peer entry must be on its own, and what the overlay section must be.\<close>

definition valid_peer :: "peer_config \<Rightarrow> bool" where
  "valid_peer p \<longleftrightarrow>
     strings_TrimSpace (peer_Name p) \<noteq> '''' \<and> ur_NodeID (peer_User p) \<noteq> 0 \<and> ur_UserID (peer_User p) \<noteq> 0 \<and>
     peer_TransportMode p \<in> {'''', ''auto'', ''stream'', ''relay''} \<and>
     peer_DialPolicy p \<in> {''auto'', ''always'', ''never''} \<and>
     peer_Routes p \<noteq> [] \<and> list_all (\<lambda>r. net_ParseCIDR r \<noteq> None) (peer_Routes p)"

definition valid_overlay :: "overlay_config \<Rightarrow> bool" where
  "valid_overlay v \<longleftrightarrow>
     (ov_Enabled v \<longrightarrow>
       strings_TrimSpace (ov_Database v) \<noteq> '''' \<and>
       (ov_StaticAddress v \<noteq> '''' \<or> ov_PoolStart v \<noteq> '''' \<and> ov_PoolEnd v \<noteq> '''') \<and>
       minute \<le> ov_LeaseDuration v)"

abbreviation peer_ref :: "peer_config \<Rightarrow> user_ref" where
  "peer_ref p \<equiv> UserRef_ToTurntf (peer_User p)"

text \<open>A password the SDK takes: a plain one that it converts and finds valid, or a hash that is not blank
  and that it finds valid.\<close>

definition usable_password :: "'pw password_sdk \<Rightarrow> password_config \<Rightarrow> bool" where
  "usable_password sdk p \<longleftrightarrow>
     pw_Source p = ''plain'' \<and>
       (\<exists>w. PlainPassword sdk (pw_Value p) = Inr w \<and> ValidatePassword sdk w = None) \<or>
     pw_Source p = ''hashed'' \<and> strings_TrimSpace (pw_Value p) \<noteq> '''' \<and>
       ValidatePassword sdk (HashedPassword sdk (pw_Value p)) = None"

text \<open>One way to log in: a node and a user without a login name, or a login name without either.\<close>

definition one_login :: "credentials_config \<Rightarrow> bool" where
  "one_login c \<longleftrightarrow>
     cr_NodeID c \<noteq> 0 \<and> cr_UserID c \<noteq> 0 \<and> strings_TrimSpace (cr_LoginName c) = '''' \<or>
     cr_NodeID c = 0 \<and> cr_UserID c = 0 \<and> strings_TrimSpace (cr_LoginName c) \<noteq> ''''"

text \<open>A kernel module name, or nothing: at most 15 lower-case letters, digits and underscores.\<close>

definition kernel_name :: "string \<Rightarrow> bool" where
  "kernel_name name \<longleftrightarrow>
     length name \<le> 15 \<and> set name \<subseteq> set ''abcdefghijklmnopqrstuvwxyz0123456789_''"

text \<open>What the documentation of the options promises of an accepted configuration.\<close>

definition valid_config :: "'pw password_sdk \<Rightarrow> config \<Rightarrow> bool" where
  "valid_config sdk c \<longleftrightarrow>
     strings_TrimSpace (BaseURL (cfg_Turntf c)) \<noteq> '''' \<and>
     usable_password sdk (cr_Password (Credentials (cfg_Turntf c))) \<and> one_login (Credentials (cfg_Turntf c)) \<and>
     valid_overlay (cfg_Overlay c) \<and>
     576 \<le> tun_MTU (cfg_Tun c) \<and>
     tun_MTU (cfg_Tun c) \<le> tr_MaxPacketBytes (cfg_Transport c) \<and>
     tr_MaxPacketBytes (cfg_Transport c) \<le> 65535 \<and>
     kernel_name (tun_RouteCongestionControl (cfg_Tun c)) \<and>
     tun_TxQueueLength (cfg_Tun c) \<in> {1..100000} \<and>
     tr_Mode (cfg_Transport c) \<in> {''auto'', ''stream'', ''relay''} \<and>
     1 \<le> tr_SendQueueSize (cfg_Transport c) \<and>
     0 < tr_DialRetryInterval (cfg_Transport c) \<and>
     tr_RelayWindowSize (cfg_Transport c) \<in> {1..256} \<and>
     tr_StreamWindowBytes (cfg_Transport c) \<in> {262144..67108864} \<and>
     list_all (\<lambda>a. net_ParseCIDR a \<noteq> None) (tun_Addresses (cfg_Tun c)) \<and>
     list_all valid_peer (cfg_Peers c) \<and> distinct (map peer_ref (cfg_Peers c))"

lemma validate_peers_None:
  "validate_peers i seen ps = None \<longleftrightarrow>
     list_all valid_peer ps \<and> distinct (map peer_ref ps) \<and> seen \<inter> set (map peer_ref ps) = {}"
proof (induction ps arbitrary: i seen)
  case (Cons p ps)
  have "validate_peers i seen (p # ps) = None \<longleftrightarrow>
      valid_peer p \<and> peer_ref p \<notin> seen \<and> validate_peers (Suc i) (insert (peer_ref p) seen) ps = None"
    using validate_routes_None [of i "peer_Routes p"]
    by (cases "validate_routes i (peer_Routes p)")
       (auto simp: Let_def valid_peer_def validTransportMode_def UserRef_ToTurntf_def)
  then show ?case using Cons.IH by auto
qed simp

lemma validate_overlay_None: "validate_overlay v = None \<longleftrightarrow> valid_overlay v"
  by (auto simp: validate_overlay_def valid_overlay_def)

lemma Credentials_accepted:
  "isl (Credentials_ToTurntf sdk c) \<longleftrightarrow> \<not> (usable_password sdk (cr_Password c) \<and> one_login c)"
  by (auto simp: Credentials_ToTurntf_def Password_ToTurntf_def usable_password_def one_login_def Let_def
      split: sum.splits option.splits)

lemma module_char:
  "r \<in> set ''abcdefghijklmnopqrstuvwxyz0123456789_'' \<longleftrightarrow>
   r \<ge> CHR ''a'' \<and> r \<le> CHR ''z'' \<or> r \<ge> CHR ''0'' \<and> r \<le> CHR ''9'' \<or> r = CHR ''_''"
proof -
  let ?S = "set ''abcdefghijklmnopqrstuvwxyz0123456789_''"
  have inj: "inj (of_char :: char \<Rightarrow> nat)" by (rule injI) simp
  have codes: "(of_char :: char \<Rightarrow> nat) ` ?S = {97..122} \<union> {48..57} \<union> {95}"
    by (simp add: atLeastAtMost_upt upt_rec flip: set_upt) auto
  have "r \<in> ?S \<longleftrightarrow> (of_char r :: nat) \<in> {97..122} \<union> {48..57} \<union> {95}"
    unfolding codes [symmetric] by (rule inj_image_mem_iff [OF inj, symmetric])
  also have "\<dots> \<longleftrightarrow> r \<ge> CHR ''a'' \<and> r \<le> CHR ''z'' \<or> r \<ge> CHR ''0'' \<and> r \<le> CHR ''9'' \<or> (of_char r :: nat) = of_char (CHR ''_'')"
    by (auto simp: less_eq_char_def)
  finally show ?thesis by (simp only: of_char_eq_iff)
qed

lemma validCongestionName_eq: "validCongestionName name \<longleftrightarrow> kernel_name name"
  unfolding validCongestionName_def kernel_name_def list_all_iff subset_iff module_char by auto

lemma Validate_None: "Validate sdk c = None \<longleftrightarrow> valid_config sdk c"
proof -
  have "(Validate sdk c = None) = (strings_TrimSpace (BaseURL (cfg_Turntf c)) \<noteq> '''' \<and>
     \<not> isl (Credentials_ToTurntf sdk (Credentials (cfg_Turntf c))) \<and>
     validate_overlay (cfg_Overlay c) = None \<and>
     \<not> (tun_MTU (cfg_Tun c) < 576 \<or> tun_MTU (cfg_Tun c) > 65535) \<and>
     validCongestionName (tun_RouteCongestionControl (cfg_Tun c)) \<and>
     \<not> (tun_TxQueueLength (cfg_Tun c) < 1 \<or> tun_TxQueueLength (cfg_Tun c) > 100000) \<and>
     validTransportMode (tr_Mode (cfg_Transport c)) \<and>
     \<not> tr_SendQueueSize (cfg_Transport c) < 1 \<and>
     \<not> (tr_MaxPacketBytes (cfg_Transport c) < tun_MTU (cfg_Tun c) \<or> tr_MaxPacketBytes (cfg_Transport c) > 65535) \<and>
     \<not> tr_DialRetryInterval (cfg_Transport c) \<le> 0 \<and>
     \<not> (tr_RelayWindowSize (cfg_Transport c) < 1 \<or> tr_RelayWindowSize (cfg_Transport c) > 256) \<and>
     \<not> (tr_StreamWindowBytes (cfg_Transport c) < 256 * 1024 \<or> tr_StreamWindowBytes (cfg_Transport c) > 64 * 1024 * 1024) \<and>
     validate_addresses (tun_Addresses (cfg_Tun c)) = None \<and> validate_peers 0 {} (cfg_Peers c) = None)"
    unfolding Validate_def Let_def
    by (cases "Credentials_ToTurntf sdk (Credentials (cfg_Turntf c))";
        cases "validate_overlay (cfg_Overlay c)"; cases "validate_addresses (tun_Addresses (cfg_Tun c))") simp_all
  also have "\<dots> = valid_config sdk c"
    unfolding valid_config_def validate_overlay_None validate_addresses_None validate_peers_None
      validTransportMode_def Credentials_accepted validCongestionName_eq by auto
  finally show ?thesis .
qed

section \<open>What an error says\<close>

text \<open>The entry at index \<open>i\<close> is bad, and those in front of it are good and name different users.\<close>

definition first_faulty :: "(peer_config \<Rightarrow> bool) \<Rightarrow> nat \<Rightarrow> peer_config list \<Rightarrow> bool" where
  "first_faulty bad i ps \<longleftrightarrow>
     i < length ps \<and> bad (ps ! i) \<and> list_all valid_peer (take i ps) \<and> distinct (map peer_ref (take i ps))"

text \<open>What is wrong with the peers, by the error that is returned.\<close>

fun peers_blamed :: "peer_config list \<Rightarrow> config_error \<Rightarrow> bool" where
  "peers_blamed ps (PeerName i) = first_faulty (\<lambda>p. strings_TrimSpace (peer_Name p) = '''') i ps"
| "peers_blamed ps (PeerUser i) = first_faulty (\<lambda>p. ur_NodeID (peer_User p) = 0 \<or> ur_UserID (peer_User p) = 0) i ps"
| "peers_blamed ps (DuplicatePeer u) =
     (\<exists>i. first_faulty (\<lambda>p. peer_ref p = u \<and> u \<in> set (map peer_ref (take i ps))) i ps)"
| "peers_blamed ps (PeerTransportMode i) =
     first_faulty (\<lambda>p. peer_TransportMode p \<notin> {'''', ''auto'', ''stream'', ''relay''}) i ps"
| "peers_blamed ps (PeerDialPolicy i) = first_faulty (\<lambda>p. peer_DialPolicy p \<notin> {''auto'', ''always'', ''never''}) i ps"
| "peers_blamed ps (PeerRoutesEmpty i) = first_faulty (\<lambda>p. peer_Routes p = []) i ps"
| "peers_blamed ps (PeerRoute i r) = first_faulty (\<lambda>p. r \<in> set (peer_Routes p) \<and> net_ParseCIDR r = None) i ps"
| "peers_blamed ps _ = False"

fun login_blamed :: "'pw password_sdk \<Rightarrow> credentials_config \<Rightarrow> config_error \<Rightarrow> bool" where
  "login_blamed sdk c ExactlyOneCredential =
     ((cr_NodeID c \<noteq> 0 \<or> cr_UserID c \<noteq> 0) = (strings_TrimSpace (cr_LoginName c) \<noteq> ''''))"
| "login_blamed sdk c CredentialIdsTogether = ((cr_NodeID c = 0) \<noteq> (cr_UserID c = 0))"
| "login_blamed sdk c _ = (\<not> usable_password sdk (cr_Password c))"

text \<open>The option that is at fault.\<close>

fun blamed :: "'pw password_sdk \<Rightarrow> config \<Rightarrow> config_error \<Rightarrow> bool" where
  "blamed sdk c BaseURLRequired = (strings_TrimSpace (BaseURL (cfg_Turntf c)) = '''')"
| "blamed sdk c (CredentialsError e) = login_blamed sdk (Credentials (cfg_Turntf c)) e"
| "blamed sdk c OverlayDatabaseRequired =
     (ov_Enabled (cfg_Overlay c) \<and> strings_TrimSpace (ov_Database (cfg_Overlay c)) = '''')"
| "blamed sdk c OverlayAddressRequired =
     (ov_Enabled (cfg_Overlay c) \<and> ov_StaticAddress (cfg_Overlay c) = '''' \<and>
      '''' \<in> {ov_PoolStart (cfg_Overlay c), ov_PoolEnd (cfg_Overlay c)})"
| "blamed sdk c OverlayLeaseTooShort = (ov_Enabled (cfg_Overlay c) \<and> ov_LeaseDuration (cfg_Overlay c) < minute)"
| "blamed sdk c MTURange = (tun_MTU (cfg_Tun c) \<notin> {576..65535})"
| "blamed sdk c CongestionName = (\<not> kernel_name (tun_RouteCongestionControl (cfg_Tun c)))"
| "blamed sdk c TxQueueRange = (tun_TxQueueLength (cfg_Tun c) \<notin> {1..100000})"
| "blamed sdk c TransportMode = (tr_Mode (cfg_Transport c) \<notin> {''auto'', ''stream'', ''relay''})"
| "blamed sdk c SendQueueSize = (tr_SendQueueSize (cfg_Transport c) < 1)"
| "blamed sdk c MaxPacketRange = (tr_MaxPacketBytes (cfg_Transport c) \<notin> {tun_MTU (cfg_Tun c)..65535})"
| "blamed sdk c DialRetryInterval = (tr_DialRetryInterval (cfg_Transport c) \<le> 0)"
| "blamed sdk c RelayWindowRange = (tr_RelayWindowSize (cfg_Transport c) \<notin> {1..256})"
| "blamed sdk c StreamWindowRange = (tr_StreamWindowBytes (cfg_Transport c) \<notin> {262144..67108864})"
| "blamed sdk c (TunAddress a) =
     (\<exists>us vs. tun_Addresses (cfg_Tun c) = us @ a # vs \<and> list_all (\<lambda>a. net_ParseCIDR a \<noteq> None) us \<and> net_ParseCIDR a = None)"
| "blamed sdk c e = peers_blamed (cfg_Peers c) e"

lemma validate_addresses_Some:
  "validate_addresses as = Some e \<Longrightarrow>
   \<exists>us a vs. e = TunAddress a \<and> as = us @ a # vs \<and> list_all (\<lambda>a. net_ParseCIDR a \<noteq> None) us \<and> net_ParseCIDR a = None"
proof (induction as)
  case (Cons b as)
  show ?case
  proof (cases "net_ParseCIDR b = None")
    case True
    with Cons.prems show ?thesis by - (rule exI [of _ "[]"], rule exI [of _ b], rule exI [of _ as], simp)
  next
    case False
    with Cons obtain us a vs where "e = TunAddress a" "as = us @ a # vs" "list_all (\<lambda>a. net_ParseCIDR a \<noteq> None) us"
      "net_ParseCIDR a = None" by auto
    with False show ?thesis by (intro exI [of _ "b # us"] exI [of _ a] exI [of _ vs]) simp
  qed
qed simp

lemma validate_routes_Some:
  "validate_routes i rs = Some e \<Longrightarrow> \<exists>r \<in> set rs. e = PeerRoute i r \<and> net_ParseCIDR r = None"
  by (induction rs) (auto split: if_splits)

lemma first_faulty_at: "list_all valid_peer qs \<Longrightarrow> distinct (map peer_ref qs) \<Longrightarrow>
    first_faulty bad (length qs) (qs @ p # ps) = bad p"
  by (simp add: first_faulty_def)

lemma validate_peers_Some:
  "validate_peers (length qs) (set (map peer_ref qs)) ps = Some e \<Longrightarrow>
   list_all valid_peer qs \<Longrightarrow> distinct (map peer_ref qs) \<Longrightarrow> peers_blamed (qs @ ps) e"
proof (induction ps arbitrary: qs)
  case (Cons p ps)
  note at = first_faulty_at [OF Cons.prems(2,3)]
  show ?case
  proof (cases "valid_peer p \<and> peer_ref p \<notin> set (map peer_ref qs)")
    case True
    then have "validate_routes (length qs) (peer_Routes p) = None" by (simp add: validate_routes_None valid_peer_def)
    with True Cons.prems(1) have "validate_peers (length (qs @ [p])) (set (map peer_ref (qs @ [p]))) ps = Some e"
      by (auto simp: Let_def valid_peer_def validTransportMode_def UserRef_ToTurntf_def split: if_splits)
    with Cons.IH [of "qs @ [p]"] True Cons.prems(2,3) show ?thesis by simp
  next
    case False
    have dup: "peers_blamed (qs @ p # ps) (DuplicatePeer (peer_ref p))" if "peer_ref p \<in> set (map peer_ref qs)"
      using that at by (auto intro!: exI [of _ "length qs"])
    show ?thesis
    proof (cases "validate_routes (length qs) (peer_Routes p)")
      case None
      with False have "\<not> (strings_TrimSpace (peer_Name p) \<noteq> '''' \<and> ur_NodeID (peer_User p) \<noteq> 0 \<and> ur_UserID (peer_User p) \<noteq> 0 \<and>
         peer_TransportMode p \<in> {'''', ''auto'', ''stream'', ''relay''} \<and> peer_DialPolicy p \<in> {''auto'', ''always'', ''never''} \<and>
         peer_Routes p \<noteq> []) \<or> peer_ref p \<in> set (map peer_ref qs)"
        by (simp add: valid_peer_def validate_routes_None)
      with Cons.prems(1) dup None show ?thesis
        by (auto simp: Let_def at validTransportMode_def UserRef_ToTurntf_def split: if_splits)
    next
      case (Some r)
      from validate_routes_Some [OF this] Cons.prems(1) dup Some show ?thesis
        by (auto simp: Let_def at validTransportMode_def UserRef_ToTurntf_def split: if_splits)
    qed
  qed
qed simp

lemma Credentials_blamed: "Credentials_ToTurntf sdk c = Inl e \<Longrightarrow> login_blamed sdk c e"
  by (auto simp: Credentials_ToTurntf_def Password_ToTurntf_def usable_password_def Let_def
      split: sum.splits option.splits if_splits)

lemma addresses_blamed: "validate_addresses (tun_Addresses (cfg_Tun c)) = Some e \<Longrightarrow> blamed sdk c e"
  by (drule validate_addresses_Some) (elim exE conjE, simp only: blamed.simps, intro exI conjI, (rule refl | assumption)+)

lemma peers_blamed_blamed: "peers_blamed (cfg_Peers c) e \<Longrightarrow> blamed sdk c e"
  by (cases e) simp_all

lemma Validate_Some: "Validate sdk c = Some e \<Longrightarrow> blamed sdk c e"
  unfolding Validate_def Let_def
  using Credentials_blamed [of sdk "Credentials (cfg_Turntf c)"] addresses_blamed [of c e sdk]
    peers_blamed_blamed [OF validate_peers_Some [of "[]" "cfg_Peers c", simplified]]
  by (auto simp: validate_overlay_def validTransportMode_def validCongestionName_eq split: sum.splits option.splits if_splits)

text \<open>C24. Validation accepts exactly the configurations that meet every documented bound: the
  MTU is between 576 and \<open>max_packet_bytes\<close>, which is at most 65535, the queue, window and
  retry settings are in range, the node logs in either by node and user or by a login name and with
  a password the SDK takes, every address and route parses, modes and dial policies are known
  ones, every peer names a user, and no user appears twice. When it rejects one, the error blames
  an option that really breaks its bound, and an error about a peer has the index of the first
  peer that is at fault.\<close>

theorem Validate_exact:
  "case Validate sdk c of
     None \<Rightarrow> valid_config sdk c
   | Some e \<Rightarrow> \<not> valid_config sdk c \<and> blamed sdk c e"
  using Validate_None [of sdk c] Validate_Some [of sdk c] by (cases "Validate sdk c") simp_all

text \<open>C25. Loading a configuration gives one that is valid and already carries its defaults, so that
  applying defaults and validating it again, as \<open>Run\<close> does, changes nothing and cannot fail.\<close>

theorem LoadConfig_fixpoint:
  assumes "LoadConfig sdk readFile unmarshal path = Inr c"
  shows "valid_config sdk c \<and> ApplyDefaults sdk c = c \<and> Validate sdk (ApplyDefaults sdk c) = None \<and>
    list_all (\<lambda>p. effectiveTransportMode p (tr_Mode (cfg_Transport c)) \<in> {''auto'', ''stream'', ''relay''})
      (cfg_Peers c)"
proof -
  from assms obtain c0 where c: "c = ApplyDefaults sdk c0" "Validate sdk c = None"
    by (auto simp: LoadConfig_def Let_def split: sum.splits option.splits)
  then have dflt: "ApplyDefaults sdk c = c" by (simp add: ApplyDefaults_idem)
  from c(2) have v: "valid_config sdk c" by (simp add: Validate_None)
  then have "list_all (\<lambda>p. effectiveTransportMode p (tr_Mode (cfg_Transport c)) \<in> {''auto'', ''stream'', ''relay''})
      (cfg_Peers c)"
    by (auto simp: valid_config_def valid_peer_def effectiveTransportMode_def list_all_iff)
  with v dflt c(2) show ?thesis by simp
qed

section \<open>The example configuration\<close>

text \<open>\<open>ExampleConfig\<close> as YAML decodes it: options it does not name are zero.\<close>

definition example_config :: config where
  "example_config =
     \<lparr>cfg_Turntf = \<lparr>BaseURL = ''http://127.0.0.1:8080'',
        Credentials = \<lparr>cr_NodeID = 0, cr_UserID = 0, cr_LoginName = ''tun-kr.login'',
          cr_Password = \<lparr>pw_Source = ''plain'', pw_Value = ''tun-password''\<rparr>\<rparr>,
        RequestTimeout = 10 * second, PingInterval = 30 * second\<rparr>,
      cfg_Tun = \<lparr>tun_Name = ''turntf0'', tun_MTU = 1400, tun_TxQueueLength = 1000,
        tun_RouteCongestionControl = '''', tun_Addresses = [''10.250.0.1/32''], tun_BringUp = True\<rparr>,
      cfg_Transport = \<lparr>tr_Mode = ''auto'', tr_SendQueueSize = 4096, tr_MaxPacketBytes = 65535,
        tr_DialRetryInterval = 3 * second, tr_RelayWindowSize = 32, tr_StreamWindowBytes = 2097152\<rparr>,
      cfg_Overlay = \<lparr>ov_Enabled = False, ov_Database = '''', ov_StaticAddress = '''',
        ov_PoolStart = '''', ov_PoolEnd = '''', ov_LeaseDuration = 0\<rparr>,
      cfg_Peers =
        [\<lparr>peer_Name = ''cc'', peer_User = \<lparr>ur_NodeID = 4096, ur_UserID = 1026\<rparr>,
          peer_Routes = [''10.250.0.2/32''], peer_TransportMode = ''stream'', peer_DialPolicy = ''auto''\<rparr>,
         \<lparr>peer_Name = ''kiwi'', peer_User = \<lparr>ur_NodeID = 4096, ur_UserID = 1027\<rparr>,
          peer_Routes = [''10.250.0.3/32''], peer_TransportMode = '''', peer_DialPolicy = ''auto''\<rparr>]\<rparr>"

text \<open>A password SDK that takes every password as it is.\<close>

definition plain_sdk :: "string password_sdk" where
  "plain_sdk = \<lparr>PlainPassword = Inr, HashedPassword = id, ValidatePassword = (\<lambda>_. None),
                DefaultStreamWindow = 2097152\<rparr>"

lemma TrimSpace_examples:
  "strings_TrimSpace ''http://127.0.0.1:8080'' = ''http://127.0.0.1:8080''"
  "strings_TrimSpace ''cc'' = ''cc''" "strings_TrimSpace ''kiwi'' = ''kiwi''"
  "strings_TrimSpace ''tun-kr.login'' = ''tun-kr.login''"
  by (simp_all add: TrimSpace_plain)

lemma ParseCIDR_examples:
  "net_ParseCIDR ''10.250.0.1/32'' \<noteq> None" "net_ParseCIDR ''10.250.0.2/32'' \<noteq> None"
  "net_ParseCIDR ''10.250.0.3/32'' \<noteq> None"
  by (simp_all add: parse_eval)

lemma example_config_defaults:
  "ApplyDefaults plain_sdk example_config =
   example_config\<lparr>cfg_Overlay := (cfg_Overlay example_config)\<lparr>ov_LeaseDuration := 10 * minute\<rparr>\<rparr>"
  by (simp add: ApplyDefaults_def example_config_def or_default_def or_default_string_def minute_def second_def)

lemma example_config_valid: "valid_config plain_sdk (ApplyDefaults plain_sdk example_config)"
  unfolding example_config_defaults
  using TrimSpace_examples ParseCIDR_examples
  by (simp add: valid_config_def example_config_def valid_overlay_def valid_peer_def
      usable_password_def one_login_def kernel_name_def plain_sdk_def UserRef_ToTurntf_def second_def)

theorem LoadConfig_fixpoint_witness:
  "ApplyDefaults plain_sdk (ApplyDefaults plain_sdk example_config) = ApplyDefaults plain_sdk example_config \<and>
   valid_config plain_sdk (ApplyDefaults plain_sdk example_config)"
proof -
  have "LoadConfig plain_sdk (\<lambda>_. Inr []) (\<lambda>_. Inr example_config) ''config.yaml''
      = Inr (ApplyDefaults plain_sdk example_config)"
    using example_config_valid by (simp add: LoadConfig_def Let_def flip: Validate_None)
  from LoadConfig_fixpoint [OF this] show ?thesis by simp
qed

end
