(* ===== verification/Route.thy ===== *)
theory Route
  imports Config
begin

text \<open>
  internal/tun/route.go: the route table built from the peers' CIDR routes, sorted stably by
  falling prefix length, and the lookup of a packet's destination in it. The interface
  \<open>best_match\<close> is what makes a first-hit scan of a sorted table a longest-prefix match.
\<close>

section \<open>The code\<close>

record route =
  rt_prefix :: ipnet
  rt_peer :: peer_config

datatype route_error = RouteError string string

text \<open>The inner loop over \<open>p.Routes\<close> and the loop over the peers; \<open>t\<close> is \<open>t.routes\<close> so far.\<close>

fun append_peer_routes :: "peer_config \<Rightarrow> string list \<Rightarrow> route list \<Rightarrow> route_error + route list" where
  "append_peer_routes p [] t = Inr t"
| "append_peer_routes p (raw # raws) t =
     (case net_ParseCIDR raw of
        None \<Rightarrow> Inl (RouteError (peer_Name p) raw)
      | Some (_, n) \<Rightarrow> append_peer_routes p raws (t @ [\<lparr>rt_prefix = n, rt_peer = p\<rparr>]))"

fun append_routes :: "peer_config list \<Rightarrow> route list \<Rightarrow> route_error + route list" where
  "append_routes [] t = Inr t"
| "append_routes (p # ps) t =
     (case append_peer_routes p (peer_Routes p) t of Inl e \<Rightarrow> Inl e | Inr t' \<Rightarrow> append_routes ps t')"

definition route_ones :: "route \<Rightarrow> nat" where
  "route_ones r = fst (mask_Size (netMask (rt_prefix r)))"

text \<open>\<open>sort.SliceStable\<close> with the comparison \<open>a > b\<close> of the mask sizes.\<close>

definition sort_routes :: "route list \<Rightarrow> route list" where
  "sort_routes = sort_key (\<lambda>r. - int (route_ones r))"

definition newRouteTable :: "peer_config list \<Rightarrow> route_error + route list" where
  "newRouteTable peers =
     (case append_routes peers [] of Inl e \<Rightarrow> Inl e | Inr t \<Rightarrow> Inr (sort_routes t))"

definition packetDestination :: "bytes \<Rightarrow> bytes option" where
  "packetDestination packet =
     (if length packet < 1 then None
      else if drop_bit 4 (packet ! 0) = 4
      then (if length packet < 20 then None
            else Some (net_IPv4 (packet ! 16) (packet ! 17) (packet ! 18) (packet ! 19)))
      else if drop_bit 4 (packet ! 0) = 6
      then (if length packet < 40 then None else Some (take 16 (drop 24 packet)))
      else None)"

fun find_route :: "route list \<Rightarrow> bytes \<Rightarrow> peer_config option" where
  "find_route [] ip = None"
| "find_route (r # rs) ip = (if ipnet_Contains (rt_prefix r) ip then Some (rt_peer r) else find_route rs ip)"

definition lookup :: "route list \<Rightarrow> bytes \<Rightarrow> peer_config option" where
  "lookup t packet =
     (case packetDestination packet of None \<Rightarrow> None | Some ip \<Rightarrow> find_route t ip)"

section \<open>First hit in a sorted table is the best match\<close>

text \<open>The best of the hits of a list: the first one among those with the greatest key.\<close>

definition best_of :: "('r \<Rightarrow> nat) \<Rightarrow> ('r \<Rightarrow> bool) \<Rightarrow> 'r list \<Rightarrow> 'r option" where
  "best_of key hit rs =
     (let hits = filter hit rs
      in if hits = [] then None
         else Some (hd (filter (\<lambda>r. key r = Max (key ` set hits)) hits)))"

lemma find_hd_filter: "find P xs = (if filter P xs = [] then None else Some (hd (filter P xs)))"
  by (induction xs) auto

locale best_match =
  fixes key :: "'r \<Rightarrow> nat"
    and arrange :: "'r list \<Rightarrow> 'r list"
  assumes arrange_sorted: "sorted_wrt (\<lambda>a b. key b \<le> key a) (arrange rs)"
    and arrange_stable: "filter (\<lambda>r. key r = k) (arrange rs) = filter (\<lambda>r. key r = k) rs"
begin

lemma arrange_set: "set (arrange rs) = set rs"
proof -
  have "r \<in> set (arrange rs) \<longleftrightarrow> r \<in> set (filter (\<lambda>x. key x = key r) (arrange rs))" for r by simp
  then show ?thesis unfolding arrange_stable by auto
qed

lemma sorted_hd_Max:
  assumes "sorted_wrt (\<lambda>a b. key b \<le> key a) xs" "xs \<noteq> []"
  shows "key (hd xs) = Max (key ` set xs)"
  using assms by (cases xs) (auto intro!: Max_eqI [symmetric])

lemma sorted_hd_filter:
  assumes "xs \<noteq> []"
  shows "hd xs = hd (filter (\<lambda>r. key r = key (hd xs)) xs)"
  using assms by (cases xs) auto

theorem find_arrange: "find hit (arrange rs) = best_of key hit rs"
proof (cases "filter hit rs = []")
  case True
  then have "find hit (arrange rs) = None"
    by (auto simp: find_None_iff arrange_set filter_empty_conv)
  with True show ?thesis by (simp add: best_of_def)
next
  case False
  let ?h = "filter hit (arrange rs)" and ?M = "Max (key ` set (filter hit rs))"
  have ne: "?h \<noteq> []" using False by (auto simp: filter_empty_conv arrange_set)
  have "sorted_wrt (\<lambda>a b. key b \<le> key a) ?h" by (rule sorted_wrt_filter [OF arrange_sorted])
  then have k: "key (hd ?h) = ?M" using sorted_hd_Max [OF _ ne] by (simp add: arrange_set)
  have "find hit (arrange rs) = Some (hd ?h)"
    using ne by (simp add: find_hd_filter)
  also have "hd ?h = hd (filter (\<lambda>r. key r = ?M) ?h)"
    using sorted_hd_filter [OF ne] by (simp add: k)
  also have "filter (\<lambda>r. key r = ?M) ?h = filter hit (filter (\<lambda>r. key r = ?M) (arrange rs))"
    by (simp add: conj_commute)
  also have "\<dots> = filter (\<lambda>r. key r = ?M) (filter hit rs)"
    by (simp add: arrange_stable conj_commute)
  finally show ?thesis using False by (simp add: best_of_def Let_def)
qed

end

lemma best_of_Some:
  assumes "best_of key hit rs = Some r"
  shows "r \<in> set rs \<and> hit r \<and> (\<forall>x \<in> set rs. hit x \<longrightarrow> key x \<le> key r)"
proof -
  let ?hits = "filter hit rs" and ?M = "Max (key ` set (filter hit rs))"
  from assms have ne: "?hits \<noteq> []" and r: "r = hd (filter (\<lambda>x. key x = ?M) ?hits)"
    by (auto simp: best_of_def Let_def split: if_splits)
  have "key ` set ?hits \<noteq> {}" using ne by (simp only: image_is_empty set_empty not_False_eq_True)
  then have "?M \<in> key ` set ?hits" by (rule Max_in [OF finite_imageI [OF finite_set]])
  then have "filter (\<lambda>x. key x = ?M) ?hits \<noteq> []" by (auto simp: filter_empty_conv)
  then have "r \<in> set (filter (\<lambda>x. key x = ?M) ?hits)" unfolding r by (rule hd_in_set)
  then show ?thesis by auto
qed

interpretation rt: best_match route_ones sort_routes
proof
  fix rs
  have "sorted (map (\<lambda>r. - int (route_ones r)) (sort_routes rs))"
    by (simp add: sort_routes_def)
  then show "sorted_wrt (\<lambda>a b. route_ones b \<le> route_ones a) (sort_routes rs)"
    by (simp add: sorted_wrt_map)
next
  fix k rs
  have "filter (\<lambda>r. - int (route_ones r) = - int k) (sort_routes rs) =
      filter (\<lambda>r. - int (route_ones r) = - int k) rs"
    unfolding sort_routes_def by (rule sort_key_stable)
  then show "filter (\<lambda>r. route_ones r = k) (sort_routes rs) = filter (\<lambda>r. route_ones r = k) rs"
    by simp
qed

lemma find_route_find:
  "find_route rs ip = map_option rt_peer (find (\<lambda>r. ipnet_Contains (rt_prefix r) ip) rs)"
  by (induction rs) auto

section \<open>What the table holds\<close>

text \<open>The routes in configuration order.\<close>

definition configured_routes :: "peer_config list \<Rightarrow> route list" where
  "configured_routes peers =
     concat (map (\<lambda>p. map (\<lambda>raw. \<lparr>rt_prefix = snd (the (net_ParseCIDR raw)), rt_peer = p\<rparr>) (peer_Routes p)) peers)"

lemma append_peer_routes_eq:
  "append_peer_routes p raws t =
    (case find (\<lambda>raw. net_ParseCIDR raw = None) raws of
       Some raw \<Rightarrow> Inl (RouteError (peer_Name p) raw)
     | None \<Rightarrow> Inr (t @ map (\<lambda>raw. \<lparr>rt_prefix = snd (the (net_ParseCIDR raw)), rt_peer = p\<rparr>) raws))"
  by (induction raws arbitrary: t) (auto split: option.splits)

lemma append_routes_ok:
  "list_all (\<lambda>p. list_all (\<lambda>raw. net_ParseCIDR raw \<noteq> None) (peer_Routes p)) ps \<Longrightarrow>
   append_routes ps t = Inr (t @ configured_routes ps)"
proof (induction ps arbitrary: t)
  case (Cons p ps)
  from Cons.prems have "find (\<lambda>raw. net_ParseCIDR raw = None) (peer_Routes p) = None"
    by (auto simp: find_None_iff list_all_iff)
  with Cons show ?case by (simp add: append_peer_routes_eq configured_routes_def)
qed (simp add: configured_routes_def)

lemma append_routes_Inr:
  "append_routes ps t = Inr t' \<Longrightarrow>
   list_all (\<lambda>p. list_all (\<lambda>raw. net_ParseCIDR raw \<noteq> None) (peer_Routes p)) ps"
proof (induction ps arbitrary: t)
  case (Cons p ps)
  then show ?case
    by (auto simp: append_peer_routes_eq list_all_iff find_None_iff split: option.splits)
qed simp

lemma newRouteTable_Inr:
  "newRouteTable ps = Inr t \<longleftrightarrow>
   list_all (\<lambda>p. list_all (\<lambda>raw. net_ParseCIDR raw \<noteq> None) (peer_Routes p)) ps \<and>
   t = sort_routes (configured_routes ps)"
  using append_routes_ok [of ps "[]"] append_routes_Inr [of ps "[]"]
  by (auto simp: newRouteTable_def split: sum.splits)

lemma lookup_best:
  assumes "newRouteTable ps = Inr t"
  shows "lookup t packet =
    (case packetDestination packet of None \<Rightarrow> None
     | Some ip \<Rightarrow> map_option rt_peer
         (best_of route_ones (\<lambda>r. ipnet_Contains (rt_prefix r) ip) (configured_routes ps)))"
  using assms
  by (auto simp: newRouteTable_Inr lookup_def find_route_find rt.find_arrange split: option.splits)

section \<open>Longest prefix\<close>

text \<open>
  When a prefix covers an address, in bits: both are of one family (a destination that is an IPv4
  address, plain or mapped into IPv6, and a prefix that is one after masking; or neither), and
  they agree on the prefix's bits. A mapped prefix counts its bits from the 97th on.
\<close>

definition covers :: "ipnet \<Rightarrow> bytes \<Rightarrow> bool" where
  "covers n dst =
     (let ones = fst (mask_Size (netMask n)) in
      case ip_To4 (netIP n) of
        Some a \<Rightarrow> (case ip_To4 dst of
            None \<Rightarrow> False
          | Some d \<Rightarrow> let k = (if length (netMask n) = 16 then ones - 96 else ones)
                       in take k (bits_of d) = take k (bits_of a))
      | None \<Rightarrow> ip_To4 dst = None \<and> length dst = 16 \<and> take ones (bits_of dst) = take ones (bits_of (netIP n)))"

lemma ip_To4_4 [simp]: "length a = 4 \<Longrightarrow> ip_To4 a = Some a"
  by (simp add: ip_To4_def)

lemma ip_To4_length: "ip_To4 a = Some d \<Longrightarrow> length d = 4"
  by (auto simp: ip_To4_def split: if_splits)

lemma Contains_covers:
  assumes "net_ParseCIDR s = Some (ip, n)"
  shows "ipnet_Contains n dst \<longleftrightarrow> covers n dst"
  using assms
proof (cases rule: ParseCIDR_shape)
  case (v4 a k)
  then have one: "fst (mask_Size (netMask n)) = k" by (simp add: mask_Size_mask)
  have nn: "networkNumberAndMask n = Some (netIP n, netMask n)" "length (netIP n) = 4"
    using v4 by (simp_all add: networkNumberAndMask_def)
  show ?thesis
  proof (cases "ip_To4 dst")
    case (Some d)
    then have "length d = 4" by (rule ip_To4_length)
    then show ?thesis using v4 one nn Some zip_and_mask_eq [of d 4 "netIP n" k]
      by (auto simp: ipnet_Contains_def covers_def Let_def)
  next
    case None
    then have "length dst \<noteq> 4" by (auto simp: ip_To4_def)
    then show ?thesis using v4 nn None by (simp add: ipnet_Contains_def covers_def Let_def)
  qed
next
  case (v6 a k)
  then have one: "fst (mask_Size (netMask n)) = k" by (simp add: mask_Size_mask)
  have len: "length (netIP n) = 16" "netMask n = mask_bytes 16 k" using v6 by simp_all
  show ?thesis
  proof (cases "ip_To4 (netIP n)")
    case (Some b)
    then have lb: "length b = 4" by (rule ip_To4_length)
    have nn: "networkNumberAndMask n = Some (b, mask_bytes 4 (k - 96))"
      using Some lb len by (simp add: networkNumberAndMask_def mask_bytes_drop)
    show ?thesis
    proof (cases "ip_To4 dst")
      case (Some d)
      then have "length d = 4" by (rule ip_To4_length)
      then show ?thesis
        using \<open>ip_To4 (netIP n) = Some b\<close> Some nn lb len one zip_and_mask_eq [of d 4 b "k - 96"]
        by (auto simp: ipnet_Contains_def covers_def Let_def)
    next
      case None
      then have "length dst \<noteq> 4" by (auto simp: ip_To4_def)
      then show ?thesis using \<open>ip_To4 (netIP n) = Some b\<close> None nn lb len
        by (simp add: ipnet_Contains_def covers_def Let_def)
    qed
  next
    case None
    have nn: "networkNumberAndMask n = Some (netIP n, netMask n)"
      using None len by (simp add: networkNumberAndMask_def)
    show ?thesis
    proof (cases "ip_To4 dst")
      case (Some d)
      then have "length d = 4" by (rule ip_To4_length)
      then show ?thesis using None Some nn len by (simp add: ipnet_Contains_def covers_def Let_def)
    next
      case no: None
      then show ?thesis
        using None nn len one zip_and_mask_eq [of dst 16 "netIP n" k]
        by (auto simp: ipnet_Contains_def covers_def Let_def)
    qed
  qed
qed

lemma configured_routes_parsed:
  assumes "list_all (\<lambda>p. list_all (\<lambda>raw. net_ParseCIDR raw \<noteq> None) (peer_Routes p)) ps"
    and "r \<in> set (configured_routes ps)"
  obtains s ip where "net_ParseCIDR s = Some (ip, rt_prefix r)"
  using assms by (fastforce simp: configured_routes_def list_all_iff)

lemma best_of_cong:
  assumes "\<And>r. r \<in> set rs \<Longrightarrow> hit r = hit' r"
  shows "best_of key hit rs = best_of key hit' rs"
proof -
  have "filter hit rs = filter hit' rs" by (rule filter_cong) (use assms in auto)
  then show ?thesis by (simp add: best_of_def)
qed

lemma lookup_covers:
  assumes "newRouteTable ps = Inr t"
  shows "lookup t packet =
    (case packetDestination packet of None \<Rightarrow> None
     | Some dst \<Rightarrow> map_option rt_peer
         (best_of route_ones (\<lambda>r. covers (rt_prefix r) dst) (configured_routes ps)))"
proof -
  have "best_of route_ones (\<lambda>r. ipnet_Contains (rt_prefix r) dst) (configured_routes ps) =
        best_of route_ones (\<lambda>r. covers (rt_prefix r) dst) (configured_routes ps)" for dst
  proof (rule best_of_cong)
    fix r assume "r \<in> set (configured_routes ps)"
    then obtain s ip where "net_ParseCIDR s = Some (ip, rt_prefix r)"
      by (rule configured_routes_parsed [rotated]) (use assms newRouteTable_Inr in auto)
    then show "ipnet_Contains (rt_prefix r) dst = covers (rt_prefix r) dst" by (rule Contains_covers)
  qed
  then show ?thesis by (simp add: lookup_best [OF assms] split: option.splits)
qed

text \<open>C3. Looking a packet up in a route table built from the configuration is longest-prefix
  matching on the packet's destination address: of all configured routes that cover the
  destination bit for bit, one with the greatest prefix length is chosen, the first one in
  configuration order when several have it; a packet with no readable destination, or with one
  that no route covers, has no peer.\<close>

theorem lookup_longest_prefix:
  assumes "newRouteTable ps = Inr t"
  shows "lookup t packet =
    (case packetDestination packet of None \<Rightarrow> None
     | Some dst \<Rightarrow> map_option rt_peer
         (best_of route_ones (\<lambda>r. covers (rt_prefix r) dst) (configured_routes ps)))"
  by (rule lookup_covers [OF assms])

section \<open>Prefixes in the mapped notation\<close>

text \<open>A prefix written in the IPv4-mapped notation of IPv6, and one written as IPv4.\<close>

definition written_v6 :: "ipnet \<Rightarrow> bool" where
  "written_v6 n \<longleftrightarrow> length (netMask n) = 16"

definition written_v4 :: "ipnet \<Rightarrow> bool" where
  "written_v4 n \<longleftrightarrow> length (netMask n) = 4"

lemma mask_byte_bit0: "bit (mask_byte m) 0 \<Longrightarrow> 8 \<le> m"
  by (rule ccontr) (simp add: mask_byte_def bit_simps byte_255 bit_mask_iff)

lemma mask_bytes_nth: "i < l \<Longrightarrow> mask_bytes l n ! i = mask_byte (n - 8 * i)"
  by (induction l arbitrary: i n) (auto simp: nth_Cons' algebra_simps)

lemma mapped_mask_long:
  assumes "length a = 16" "take 12 (zip_and a (mask_bytes 16 k)) = v4InV6Prefix"
  shows "96 \<le> k"
proof -
  have "zip_and a (mask_bytes 16 k) ! 11 = take 12 (zip_and a (mask_bytes 16 k)) ! 11" by simp
  also have "\<dots> = 255" by (simp add: assms(2) v4InV6Prefix_def nth_append)
  finally have "a ! 11 AND mask_byte (k - 88) = 255"
    using assms(1) by (simp add: zip_and_def mask_bytes_nth)
  moreover have "bit (255 :: byte) 0" by simp
  ultimately have "bit (mask_byte (k - 88)) 0" by (metis bit_and_iff)
  then show ?thesis using mask_byte_bit0 by fastforce
qed

lemma parsed_length:
  assumes "net_ParseCIDR s = Some (ip, rt_prefix r)"
  shows "written_v4 (rt_prefix r) \<Longrightarrow> route_ones r \<le> 32"
    and "written_v6 (rt_prefix r) \<Longrightarrow> ip_To4 (netIP (rt_prefix r)) \<noteq> None \<Longrightarrow> 96 \<le> route_ones r"
    and "written_v4 (rt_prefix r) \<or> written_v6 (rt_prefix r)"
  using ParseCIDR_shape [OF assms]
  by (cases; auto simp: written_v4_def written_v6_def route_ones_def mask_Size_mask ip_To4_def
      dest: mapped_mask_long split: if_splits)+

text \<open>C32. Prefix lengths are compared as they are written, also between an IPv4 prefix and one in
  the IPv4-mapped notation of IPv6, which both cover IPv4 packets. A mapped prefix counts the 96 bits
  in front of the IPv4 address as well, so whenever one covers a packet, the packet goes to the peer
  of a mapped prefix, and to none for the sake of a route in IPv4 notation that covers it too,
  however many more bits of the address that one fixes: its length is at most 32, and that of the
  mapped one is at least 96.\<close>

theorem mapped_prefix_outranks_ipv4_routes:
  assumes "newRouteTable ps = Inr t" "packetDestination packet = Some dst" "ip_To4 dst \<noteq> None"
    and "r \<in> set (configured_routes ps)" "written_v6 (rt_prefix r)" "covers (rt_prefix r) dst"
  shows "(\<exists>m \<in> set (configured_routes ps). lookup t packet = Some (rt_peer m) \<and> covers (rt_prefix m) dst \<and>
      written_v6 (rt_prefix m) \<and> 96 \<le> route_ones m) \<and>
    (\<forall>s \<in> set (configured_routes ps). written_v4 (rt_prefix s) \<longrightarrow> route_ones s \<le> 32)"
proof -
  have parsed: "\<exists>s ip. net_ParseCIDR s = Some (ip, rt_prefix x)" if "x \<in> set (configured_routes ps)" for x
    using configured_routes_parsed [OF _ that] assms(1) newRouteTable_Inr by metis
  have covers4: "ip_To4 (netIP n) \<noteq> None" if "covers n dst" for n
    using that assms(3) by (auto simp: covers_def Let_def split: option.splits)
  let ?hit = "\<lambda>r. covers (rt_prefix r) dst"
  have "filter ?hit (configured_routes ps) \<noteq> []" using assms(4,6) by (auto simp: filter_empty_conv)
  then obtain m where m: "best_of route_ones ?hit (configured_routes ps) = Some m" by (simp add: best_of_def Let_def)
  then have best: "m \<in> set (configured_routes ps)" "covers (rt_prefix m) dst" "route_ones r \<le> route_ones m"
    using best_of_Some [OF m] assms(4,6) by blast+
  obtain s ip where "net_ParseCIDR s = Some (ip, rt_prefix r)" using parsed [OF assms(4)] by blast
  then have "96 \<le> route_ones r" using assms(5) covers4 [OF assms(6)] by (rule parsed_length(2))
  with best(3) have long: "96 \<le> route_ones m" by simp
  obtain s' ip' where s': "net_ParseCIDR s' = Some (ip', rt_prefix m)" using parsed [OF best(1)] by blast
  have "written_v6 (rt_prefix m)" using parsed_length(1,3) [OF s'] long by auto
  moreover have "lookup t packet = Some (rt_peer m)" by (simp add: lookup_covers [OF assms(1)] assms(2) m)
  moreover have "route_ones x \<le> 32" if "x \<in> set (configured_routes ps)" "written_v4 (rt_prefix x)" for x
    using parsed [OF that(1)] that(2) parsed_length(1) by blast
  ultimately show ?thesis using best(1,2) long by blast
qed

section \<open>Examples\<close>

text \<open>The table of the repository's test: a wide and a narrow route, and a packet in each.\<close>

definition peer_with :: "string \<Rightarrow> int \<Rightarrow> string list \<Rightarrow> peer_config" where
  "peer_with name u raws = \<lparr>peer_Name = name, peer_User = \<lparr>ur_NodeID = 1, ur_UserID = u\<rparr>,
     peer_Routes = raws, peer_TransportMode = '''', peer_DialPolicy = ''auto''\<rparr>"

definition ipv4_packet :: "byte \<Rightarrow> byte \<Rightarrow> byte \<Rightarrow> byte \<Rightarrow> bytes" where
  "ipv4_packet a b c d = [0x45, 0, 0, 0, 0, 0, 0, 0, 0, 0, 0, 0, 0, 0, 0, 0, a, b, c, d]"

lemma ipv4_packet_dst: "packetDestination (ipv4_packet a b c d) = Some (net_IPv4 a b c d)"
  by (simp add: packetDestination_def ipv4_packet_def drop_bit_eq_div)

lemma parse_examples:
  "net_ParseCIDR ''10.0.0.0/8'' = Some (net_IPv4 10 0 0 0, \<lparr>netIP = [10, 0, 0, 0], netMask = [255, 0, 0, 0]\<rparr>)"
  "net_ParseCIDR ''10.1.0.0/16'' = Some (net_IPv4 10 1 0 0, \<lparr>netIP = [10, 1, 0, 0], netMask = [255, 255, 0, 0]\<rparr>)"
  by (simp_all add: parse_eval net_IPv4_def)


lemma route_eval_sort:
  "sort_routes [a, b] = (if route_ones b > route_ones a then [b, a] else [a, b])"
  by (auto simp: sort_routes_def)

theorem lookup_longest_prefix_witness:
  "\<exists>t. newRouteTable [peer_with ''wide'' 2 [''10.0.0.0/8''], peer_with ''narrow'' 3 [''10.1.0.0/16'']] = Inr t \<and>
     lookup t (ipv4_packet 10 1 2 3) = Some (peer_with ''narrow'' 3 [''10.1.0.0/16'']) \<and>
     map_option rt_peer (best_of route_ones (\<lambda>r. covers (rt_prefix r) (net_IPv4 10 1 2 3))
        (configured_routes [peer_with ''wide'' 2 [''10.0.0.0/8''], peer_with ''narrow'' 3 [''10.1.0.0/16'']]))
       = Some (peer_with ''narrow'' 3 [''10.1.0.0/16''])"
proof -
  let ?ps = "[peer_with ''wide'' 2 [''10.0.0.0/8''], peer_with ''narrow'' 3 [''10.1.0.0/16'']]"
  have "\<exists>t. newRouteTable ?ps = Inr t"
    by (simp add: newRouteTable_Inr peer_with_def parse_examples)
  then obtain t where t: "newRouteTable ?ps = Inr t" by blast
  then have "t = sort_routes (configured_routes ?ps)" by (simp add: newRouteTable_Inr)
  then have "lookup t (ipv4_packet 10 1 2 3) = Some (peer_with ''narrow'' 3 [''10.1.0.0/16''])"
    by (simp add: configured_routes_def peer_with_def parse_examples lookup_def ipv4_packet_dst
        route_eval_sort route_ones_def mask_Size_def leading_ones.simps
        ipnet_Contains_def networkNumberAndMask_def net_IPv4_def ip_To4_def v4InV6Prefix_def zip_and_def
        replicate_numeral_Cons)
  with lookup_longest_prefix [OF t, of "ipv4_packet 10 1 2 3"] t show ?thesis
    by (simp add: ipv4_packet_dst)
qed

lemma parse_mapped:
  "net_ParseCIDR ''::ffff:0.0.0.0/96'' = Some (net_IPv4 0 0 0 0,
     \<lparr>netIP = net_IPv4 0 0 0 0, netMask = replicate 12 255 @ [0, 0, 0, 0]\<rparr>)"
  by (simp add: parse_eval net_IPv4_def)

lemma parse_host:
  "net_ParseCIDR ''10.250.0.2/32'' = Some (net_IPv4 10 250 0 2,
     \<lparr>netIP = [10, 250, 0, 2], netMask = [255, 255, 255, 255]\<rparr>)"
  by (simp add: parse_eval net_IPv4_def)

text \<open>The mapped default route, that fixes no bit of the IPv4 address, outranks an exact host route.\<close>

theorem mapped_prefix_outranks_ipv4_routes_witness:
  "\<exists>t. newRouteTable [peer_with ''host'' 2 [''10.250.0.2/32''], peer_with ''mapped'' 3 [''::ffff:0.0.0.0/96'']] = Inr t \<and>
     lookup t (ipv4_packet 10 250 0 2) = Some (peer_with ''mapped'' 3 [''::ffff:0.0.0.0/96''])"
proof -
  let ?ps = "[peer_with ''host'' 2 [''10.250.0.2/32''], peer_with ''mapped'' 3 [''::ffff:0.0.0.0/96'']]"
  let ?net = "\<lparr>netIP = net_IPv4 0 0 0 0, netMask = replicate 12 255 @ [0, 0, 0, 0]\<rparr>"
  have t: "newRouteTable ?ps = Inr (sort_routes (configured_routes ?ps))"
    by (simp add: newRouteTable_Inr peer_with_def parse_mapped parse_host)
  have routes: "configured_routes ?ps =
      [\<lparr>rt_prefix = \<lparr>netIP = [10, 250, 0, 2], netMask = [255, 255, 255, 255]\<rparr>, rt_peer = peer_with ''host'' 2 [''10.250.0.2/32'']\<rparr>,
       \<lparr>rt_prefix = ?net, rt_peer = peer_with ''mapped'' 3 [''::ffff:0.0.0.0/96'']\<rparr>]"
    by (simp add: configured_routes_def peer_with_def parse_mapped parse_host)
  have mapped: "covers ?net (net_IPv4 10 250 0 2)"
    unfolding Contains_covers [OF parse_mapped, symmetric]
    by (simp add: ipnet_Contains_def networkNumberAndMask_def net_IPv4_def ip_To4_def v4InV6Prefix_def zip_and_def
        replicate_numeral_Cons)
  have "ip_To4 (net_IPv4 10 250 0 2) \<noteq> None" by (simp add: net_IPv4_def ip_To4_def v4InV6Prefix_def)
  from mapped_prefix_outranks_ipv4_routes [OF t ipv4_packet_dst this, of "\<lparr>rt_prefix = ?net, rt_peer = peer_with ''mapped'' 3 [''::ffff:0.0.0.0/96'']\<rparr>"]
  have "lookup (sort_routes (configured_routes ?ps)) (ipv4_packet 10 250 0 2) = Some (peer_with ''mapped'' 3 [''::ffff:0.0.0.0/96''])"
    using mapped by (auto simp: routes written_v6_def)
  with t show ?thesis by blast
qed

end
