(* ===== verification/RelayPorts.thy ===== *)
theory RelayPorts
  imports Route
begin

text \<open>
  The relay side of internal/tun/runtime.go: peer ports and their bounded send queues, the registry
  of live relay connections per user (\<open>relayPorts\<close>), the selected outbound port of a user
  (\<open>ports\<close>), and the operations on them. Ports are pointers in the code; here they are numbers into
  a heap, so that two ports with equal contents stay distinct. A port's connection is known by its
  \<open>RelayID\<close>; aborting it is recorded in the port, and the close callback the SDK then runs is a step
  of its own, which may come at any later time. Logging is left out.
\<close>

section \<open>The state\<close>

record peer_port =
  pp_peer :: peer_config
  pp_relayID :: string
  pp_queue :: "bytes list"
  pp_slots :: nat
  pp_done :: bool
  pp_aborted :: bool

record relay_state =
  rl_heap :: "nat \<Rightarrow> peer_port option"
  rl_next :: nat
  rl_ports :: "user_ref \<Rightarrow> nat option"
  rl_relayPorts :: "user_ref \<Rightarrow> (string \<Rightarrow> nat option) option"
  rl_onClose :: "nat set"

definition relay_start :: relay_state where
  "relay_start = \<lparr>rl_heap = Map.empty, rl_next = 0, rl_ports = Map.empty, rl_relayPorts = Map.empty,
                  rl_onClose = {}\<rparr>"

section \<open>Ports\<close>

definition port_closeDone :: "peer_port \<Rightarrow> peer_port" where
  "port_closeDone p = p\<lparr>pp_done := True\<rparr>"

definition port_close :: "peer_port \<Rightarrow> peer_port" where
  "port_close p = (port_closeDone p)\<lparr>pp_aborted := True\<rparr>"

definition port_enqueue :: "peer_port \<Rightarrow> bytes \<Rightarrow> peer_port \<times> bool" where
  "port_enqueue p packet =
     (let (q, sent) = chan_offer (pp_slots p) (pp_queue p) packet in (p\<lparr>pp_queue := q\<rparr>, sent))"

interpretation pq: bounded_queue port_enqueue pp_queue pp_slots
  by unfold_locales (auto simp: port_enqueue_def chan_offer_def)

definition on_port :: "nat \<Rightarrow> (peer_port \<Rightarrow> peer_port) \<Rightarrow> relay_state \<Rightarrow> relay_state" where
  "on_port pid f s = s\<lparr>rl_heap := (rl_heap s)(pid := map_option f (rl_heap s pid))\<rparr>"

abbreviation relay_of :: "relay_state \<Rightarrow> nat \<Rightarrow> string" where
  "relay_of s pid \<equiv> pp_relayID (the (rl_heap s pid))"

section \<open>registerPort, unregisterPort, closePorts, acceptRelay\<close>

definition registerPort :: "nat \<Rightarrow> peer_config \<Rightarrow> string \<Rightarrow> relay_state \<Rightarrow> relay_state \<times> nat" where
  "registerPort sendQueueSize peer relayID s =
     (let pid = rl_next s;
          p = \<lparr>pp_peer = peer, pp_relayID = relayID, pp_queue = [], pp_slots = sendQueueSize,
               pp_done = False, pp_aborted = False\<rparr>;
          user = peer_ref peer;
          s = s\<lparr>rl_heap := (rl_heap s)(pid \<mapsto> p), rl_next := Suc pid\<rparr>;
          connections = (case rl_relayPorts s user of None \<Rightarrow> Map.empty | Some c \<Rightarrow> c);
          s = s\<lparr>rl_relayPorts := (rl_relayPorts s)(user \<mapsto> connections)\<rparr>
      in if connections relayID \<noteq> None then (on_port pid port_close s, pid)
         else let s = s\<lparr>rl_relayPorts := (rl_relayPorts s)(user \<mapsto> connections(relayID \<mapsto> pid))\<rparr>;
                  s = (case rl_ports s user of
                         None \<Rightarrow> s\<lparr>rl_ports := (rl_ports s)(user \<mapsto> pid)\<rparr>
                       | Some selected \<Rightarrow>
                           if relayID < relay_of s selected
                           then s\<lparr>rl_ports := (rl_ports s)(user \<mapsto> pid)\<rparr> else s)
              in (s\<lparr>rl_onClose := insert pid (rl_onClose s)\<rparr>, pid))"

text \<open>
  The loop over \<open>connections\<close> that promotes the lowest relay ID. Go visits a map in an unspecified
  order: \<open>order\<close> is the one of this run.
\<close>

fun promote :: "(nat \<Rightarrow> string) \<Rightarrow> nat list \<Rightarrow> nat option \<Rightarrow> nat option" where
  "promote rid [] selected = selected"
| "promote rid (candidate # order) selected =
     promote rid order
       (case selected of
          None \<Rightarrow> Some candidate
        | Some sel \<Rightarrow> if rid candidate < rid sel then Some candidate else Some sel)"

definition unregisterPort :: "user_ref \<Rightarrow> nat \<Rightarrow> nat list \<Rightarrow> relay_state \<Rightarrow> relay_state" where
  "unregisterPort user pid order s =
     (let connections = (case rl_relayPorts s user of None \<Rightarrow> Map.empty | Some c \<Rightarrow> c);
          rid = relay_of s pid;
          connections = (if connections rid = Some pid then connections(rid := None) else connections);
          s = (if rl_relayPorts s user \<noteq> None
               then s\<lparr>rl_relayPorts := (rl_relayPorts s)(user \<mapsto> connections)\<rparr> else s);
          s = (if connections = Map.empty
               then s\<lparr>rl_relayPorts := (rl_relayPorts s)(user := None)\<rparr> else s);
          s = (if rl_ports s user = Some pid
               then s\<lparr>rl_ports := (rl_ports s)(user := promote (relay_of s) order None)\<rparr> else s)
      in on_port pid port_closeDone s)"

text \<open>The live connections of a user after \<open>pid\<close> is gone, which is what \<open>order\<close> runs through.\<close>

definition remaining :: "user_ref \<Rightarrow> nat \<Rightarrow> relay_state \<Rightarrow> nat set" where
  "remaining user pid s =
     (case rl_relayPorts s user of None \<Rightarrow> {}
      | Some c \<Rightarrow> ran (if c (relay_of s pid) = Some pid then c(relay_of s pid := None) else c))"

definition closePorts :: "relay_state \<Rightarrow> relay_state" where
  "closePorts s =
     s\<lparr>rl_heap := (\<lambda>pid.
        if (\<exists>c \<in> ran (rl_relayPorts s). pid \<in> ran c) \<or> pid \<in> ran (rl_ports s)
        then map_option port_close (rl_heap s pid) else rl_heap s pid)\<rparr>"

datatype accept_result = AcceptAborted | AcceptedAs nat

definition acceptRelay ::
    "nat \<Rightarrow> peer_config list \<Rightarrow> user_ref \<Rightarrow> string \<Rightarrow> relay_state \<Rightarrow> relay_state \<times> accept_result" where
  "acceptRelay sendQueueSize peers remote relayID s =
     (case find (\<lambda>p. peer_ref p = remote) peers of
        None \<Rightarrow> (s, AcceptAborted)
      | Some peer \<Rightarrow> let (s', pid) = registerPort sendQueueSize peer relayID s in (s', AcceptedAs pid))"

definition shouldDial :: "user_ref \<Rightarrow> user_ref \<Rightarrow> string \<Rightarrow> bool" where
  "shouldDial local remote policy =
     (if policy = ''always'' then True
      else if policy = ''never'' then False
      else if NodeID local \<noteq> NodeID remote then NodeID local < NodeID remote
      else UserID local < UserID remote)"

text \<open>Dialling by the policy auto is the strict order of user references, so of two distinct users exactly
  one dials; an explicit policy overrides it.\<close>

lemma shouldDial_auto: "shouldDial a b ''auto'' = (a < b)"
  by (auto simp: shouldDial_def less_user_ref_def)

lemma shouldDial_exactly_one:
  "(shouldDial a b ''auto'' = shouldDial b a ''auto'') = (a = b) \<and> shouldDial a b ''always'' \<and> \<not> shouldDial a b ''never''"
  unfolding shouldDial_auto by (auto simp: shouldDial_def)

section \<open>How connections come and go\<close>

inductive relay_step :: "relay_state \<Rightarrow> relay_state \<Rightarrow> bool" where
  register: "relay_step s (fst (registerPort n peer rid s))"
| connection_closed: "pid \<in> rl_onClose s \<Longrightarrow> rl_heap s pid = Some p \<Longrightarrow>
    set order = remaining (peer_ref (pp_peer p)) pid s \<Longrightarrow>
    relay_step s (unregisterPort (peer_ref (pp_peer p)) pid order s)"
| close_port: "relay_step s (on_port pid port_close s)"
| close_all: "relay_step s (closePorts s)"
| send: "relay_step s (on_port pid (\<lambda>p. fst (port_enqueue p packet)) s)"
| drain: "relay_step s (on_port pid (\<lambda>p. p\<lparr>pp_queue := tl (pp_queue p)\<rparr>) s)"

inductive_cases relay_stepE: "relay_step s t"

text \<open>The selected port of a user: the one of its lowest live relay ID.\<close>

definition is_lowest :: "(string \<Rightarrow> nat option) \<Rightarrow> nat \<Rightarrow> bool" where
  "is_lowest c pid \<longleftrightarrow> (\<exists>rid. c rid = Some pid \<and> (\<forall>rid' \<in> dom c. rid \<le> rid'))"

definition relay_inv :: "relay_state \<Rightarrow> bool" where
  "relay_inv s \<longleftrightarrow>
     (\<forall>pid. rl_next s \<le> pid \<longrightarrow> rl_heap s pid = None) \<and>
     (\<forall>u c rid pid. rl_relayPorts s u = Some c \<longrightarrow> c rid = Some pid \<longrightarrow>
        (\<exists>p. rl_heap s pid = Some p \<and> pp_relayID p = rid \<and> peer_ref (pp_peer p) = u) \<and> pid \<in> rl_onClose s) \<and>
     (\<forall>u. case rl_relayPorts s u of
            None \<Rightarrow> rl_ports s u = None
          | Some c \<Rightarrow> (\<exists>pid. rl_ports s u = Some pid \<and> is_lowest c pid))"

section \<open>The invariant of the registry\<close>

lemma relay_invI:
  assumes "\<And>pid. rl_next s \<le> pid \<Longrightarrow> rl_heap s pid = None"
    and "\<And>u c rid pid. rl_relayPorts s u = Some c \<Longrightarrow> c rid = Some pid \<Longrightarrow>
       (\<exists>p. rl_heap s pid = Some p \<and> pp_relayID p = rid \<and> peer_ref (pp_peer p) = u) \<and> pid \<in> rl_onClose s"
    and "\<And>u. rl_relayPorts s u = None \<Longrightarrow> rl_ports s u = None"
    and "\<And>u c. rl_relayPorts s u = Some c \<Longrightarrow> \<exists>pid. rl_ports s u = Some pid \<and> is_lowest c pid"
  shows "relay_inv s"
  using assms unfolding relay_inv_def by (auto split: option.splits)

lemma relay_inv_fresh: "relay_inv s \<Longrightarrow> rl_next s \<le> pid \<Longrightarrow> rl_heap s pid = None"
  by (simp add: relay_inv_def)

lemma relay_inv_entry:
  assumes "relay_inv s" "rl_relayPorts s u = Some c" "c rid = Some pid"
  obtains p where "rl_heap s pid = Some p" "pp_relayID p = rid" "peer_ref (pp_peer p) = u" "pid \<in> rl_onClose s"
  using assms unfolding relay_inv_def by blast

lemma relay_inv_rid:
  "relay_inv s \<Longrightarrow> rl_relayPorts s u = Some c \<Longrightarrow> c r = Some x \<Longrightarrow> relay_of s x = r"
  by (erule (2) relay_inv_entry) simp

lemma relay_inv_case:
  "relay_inv s \<Longrightarrow> case rl_relayPorts s u of None \<Rightarrow> rl_ports s u = None
    | Some c \<Rightarrow> \<exists>pid. rl_ports s u = Some pid \<and> is_lowest c pid"
  unfolding relay_inv_def by blast

lemma relay_inv_none: "relay_inv s \<Longrightarrow> rl_relayPorts s u = None \<Longrightarrow> rl_ports s u = None"
  using relay_inv_case [of s u] by simp

lemma relay_inv_lowest:
  assumes "relay_inv s" "rl_relayPorts s u = Some c"
  obtains pid where "rl_ports s u = Some pid" "is_lowest c pid"
  using relay_inv_case [of s u] assms by auto

lemma relay_inv_start: "relay_inv relay_start"
  by (rule relay_invI) (auto simp: relay_start_def)

lemma relay_inv_heap:
  assumes "relay_inv s" "rl_heap t = (\<lambda>pid. map_option (f pid) (rl_heap s pid))"
    and "\<And>pid p. pp_relayID (f pid p) = pp_relayID p \<and> pp_peer (f pid p) = pp_peer p"
    and "rl_next t = rl_next s" "rl_ports t = rl_ports s" "rl_relayPorts t = rl_relayPorts s" "rl_onClose t = rl_onClose s"
  shows "relay_inv t"
proof (rule relay_invI)
  fix pid assume "rl_next t \<le> pid" then show "rl_heap t pid = None"
    using assms(1,2,4) relay_inv_fresh by simp
next
  fix u c rid pid assume "rl_relayPorts t u = Some c" "c rid = Some pid"
  then have "rl_relayPorts s u = Some c" by (simp add: assms(6))
  from relay_inv_entry [OF assms(1) this \<open>c rid = Some pid\<close>] obtain p where
    "rl_heap s pid = Some p" "pp_relayID p = rid" "peer_ref (pp_peer p) = u" "pid \<in> rl_onClose s" .
  then show "(\<exists>p. rl_heap t pid = Some p \<and> pp_relayID p = rid \<and> peer_ref (pp_peer p) = u) \<and> pid \<in> rl_onClose t"
    using assms(2,3,7) by simp
next
  fix u assume "rl_relayPorts t u = None"
  then show "rl_ports t u = None" using relay_inv_none [OF assms(1)] assms(5,6) by simp
next
  fix u c assume "rl_relayPorts t u = Some c"
  then have "rl_relayPorts s u = Some c" by (simp add: assms(6))
  from relay_inv_lowest [OF assms(1) this] show "\<exists>pid. rl_ports t u = Some pid \<and> is_lowest c pid"
    using assms(5) by metis
qed

lemma relay_inv_on_port:
  assumes "relay_inv s" "\<And>p. pp_relayID (f p) = pp_relayID p \<and> pp_peer (f p) = pp_peer p"
  shows "relay_inv (on_port pid f s)"
  by (rule relay_inv_heap [OF assms(1), of _ "\<lambda>q. if q = pid then f else id"])
     (auto simp: on_port_def assms(2) option.map_id fun_eq_iff)

lemma port_ops_frame:
  "pp_relayID (port_close p) = pp_relayID p" "pp_peer (port_close p) = pp_peer p"
  "pp_relayID (port_closeDone p) = pp_relayID p" "pp_peer (port_closeDone p) = pp_peer p"
  "pp_relayID (fst (port_enqueue p x)) = pp_relayID p" "pp_peer (fst (port_enqueue p x)) = pp_peer p"
  by (simp_all add: port_close_def port_closeDone_def port_enqueue_def split: prod.splits)

lemma relay_inv_closePorts: "relay_inv s \<Longrightarrow> relay_inv (closePorts s)"
  by (erule relay_inv_heap [of _ _ "\<lambda>pid. if (\<exists>c \<in> ran (rl_relayPorts s). pid \<in> ran c) \<or> pid \<in> ran (rl_ports s)
        then port_close else id"])
     (auto simp: closePorts_def port_ops_frame option.map_id fun_eq_iff)

text \<open>The promoted port is the lowest of those visited, whatever the order.\<close>

lemma promote_some:
  "\<exists>x. promote rid order (Some z) = Some x \<and> x \<in> insert z (set order) \<and>
       (\<forall>y \<in> insert z (set order). rid x \<le> rid y)"
proof (induction order arbitrary: z)
  case Nil
  then show ?case by simp
next
  case (Cons c order)
  define w where "w = (if rid c < rid z then c else z)"
  have step: "promote rid (c # order) (Some z) = promote rid order (Some w)" by (simp add: w_def)
  have w: "w \<in> {c, z}" "rid w \<le> rid c" "rid w \<le> rid z" by (auto simp: w_def)
  from Cons.IH [of w] obtain x where
    x: "promote rid order (Some w) = Some x" "x \<in> insert w (set order)" "\<forall>y \<in> insert w (set order). rid x \<le> rid y"
    by blast
  have "rid x \<le> rid w" using x(3) by simp
  then have "\<forall>y \<in> insert z (set (c # order)). rid x \<le> rid y"
    using x(3) w by (auto intro: order_trans)
  then show ?case using step x(1,2) w(1) by auto
qed

lemma promote_lowest:
  assumes "order \<noteq> []"
  obtains x where "promote rid order None = Some x" "x \<in> set order" "\<forall>y \<in> set order. rid x \<le> rid y"
  using assms promote_some [of rid "tl order" "hd order"] by (cases order) auto

lemma is_lowestI: "c rid = Some pid \<Longrightarrow> \<forall>rid' \<in> dom c. rid \<le> rid' \<Longrightarrow> is_lowest c pid"
  unfolding is_lowest_def by blast

lemma relay_inv_alloc:
  assumes inv: "relay_inv s"
  shows "relay_inv (s\<lparr>rl_heap := (rl_heap s)(rl_next s \<mapsto> p), rl_next := Suc (rl_next s)\<rparr>)" (is "relay_inv ?s")
proof (rule relay_invI)
  fix pid assume "rl_next ?s \<le> pid" then show "rl_heap ?s pid = None"
    using relay_inv_fresh [OF inv, of pid] by simp
next
  fix u d r x assume d: "rl_relayPorts ?s u = Some d" "d r = Some x"
  then have "rl_relayPorts s u = Some d" by simp
  from relay_inv_entry [OF inv this d(2)] obtain q where
    q: "rl_heap s x = Some q" "pp_relayID q = r" "peer_ref (pp_peer q) = u" "x \<in> rl_onClose s" .
  moreover have "x \<noteq> rl_next s" using q(1) relay_inv_fresh [OF inv, of x] by auto
  ultimately show "(\<exists>p. rl_heap ?s x = Some p \<and> pp_relayID p = r \<and> peer_ref (pp_peer p) = u) \<and> x \<in> rl_onClose ?s"
    by simp
next
  fix u assume "rl_relayPorts ?s u = None"
  then show "rl_ports ?s u = None" using relay_inv_none [OF inv, of u] by simp
next
  fix u d assume "rl_relayPorts ?s u = Some d"
  then have "rl_relayPorts s u = Some d" by simp
  from relay_inv_lowest [OF inv this] show "\<exists>pid. rl_ports ?s u = Some pid \<and> is_lowest d pid" by auto
qed

lemma relay_inv_register:
  assumes inv: "relay_inv s"
  shows "relay_inv (fst (registerPort n peer rid s))"
proof -
  let ?pid = "rl_next s" and ?u = "peer_ref peer"
  let ?p = "\<lparr>pp_peer = peer, pp_relayID = rid, pp_queue = [], pp_slots = n, pp_done = False, pp_aborted = False\<rparr>"
  let ?c = "case rl_relayPorts s ?u of None \<Rightarrow> Map.empty | Some c \<Rightarrow> c"
  have fresh: "rl_heap s ?pid = None" by (rule relay_inv_fresh [OF inv]) simp
  have c_entry: "\<exists>q. rl_heap s x = Some q \<and> pp_relayID q = r \<and> peer_ref (pp_peer q) = ?u \<and> x \<in> rl_onClose s"
    if "?c r = Some x" for r x
    using that relay_inv_entry [OF inv] by (cases "rl_relayPorts s ?u") (simp, metis option.simps(5))
  show ?thesis
  proof (cases "?c rid = None")
    case False
    then obtain c where c: "rl_relayPorts s ?u = Some c" by (cases "rl_relayPorts s ?u") auto
    let ?s = "s\<lparr>rl_heap := (rl_heap s)(?pid \<mapsto> ?p), rl_next := Suc ?pid\<rparr>"
    have "relay_inv ?s" by (rule relay_inv_alloc [OF inv])
    then have "relay_inv (on_port ?pid port_close ?s)"
      by (rule relay_inv_on_port) (simp add: port_ops_frame)
    moreover have "(rl_relayPorts s)(?u \<mapsto> ?c) = rl_relayPorts s" using c by (simp add: fun_upd_idem)
    then have "fst (registerPort n peer rid s) = on_port ?pid port_close ?s"
      using False by (simp add: registerPort_def Let_def del: fun_upd_apply)
    ultimately show ?thesis by simp
  next
    case True
    let ?h = "(rl_heap s)(?pid \<mapsto> ?p)"
    define sel where "sel = (case rl_ports s ?u of None \<Rightarrow> ?pid
      | Some x \<Rightarrow> if rid < pp_relayID (the (?h x)) then ?pid else x)"
    let ?t = "s\<lparr>rl_heap := ?h, rl_next := Suc ?pid, rl_relayPorts := (rl_relayPorts s)(?u \<mapsto> ?c(rid \<mapsto> ?pid)),
               rl_ports := (rl_ports s)(?u \<mapsto> sel), rl_onClose := insert ?pid (rl_onClose s)\<rparr>"
    have t: "fst (registerPort n peer rid s) = ?t"
      by (cases "rl_ports s ?u") (simp_all add: registerPort_def Let_def sel_def fun_upd_idem True)
    have low: "is_lowest (?c(rid \<mapsto> ?pid)) sel"
    proof (cases "rl_relayPorts s ?u")
      case None
      then show ?thesis using relay_inv_none [OF inv None] by (simp add: sel_def is_lowest_def)
    next
      case (Some c)
      from relay_inv_lowest [OF inv Some] obtain x where x: "rl_ports s ?u = Some x" "is_lowest c x" .
      then obtain r where r: "c r = Some x" "\<forall>r' \<in> dom c. r \<le> r'" by (auto simp: is_lowest_def)
      from relay_inv_entry [OF inv Some r(1)] obtain q where q: "rl_heap s x = Some q" "pp_relayID q = r" .
      then have h: "pp_relayID (the (?h x)) = r" using fresh by auto
      have "r \<noteq> rid" using True Some r(1) by auto
      show ?thesis
      proof (cases "rid < r")
        case True
        then have "sel = ?pid" using x h by (simp add: sel_def)
        moreover have "\<forall>r' \<in> dom (c(rid \<mapsto> ?pid)). rid \<le> r'"
          using r(2) True by (auto intro: less_imp_le order_trans)
        ultimately show ?thesis using Some by (intro is_lowestI [of _ rid]) auto
      next
        case False
        then have "sel = x" using x h by (simp add: sel_def)
        moreover have "(c(rid \<mapsto> ?pid)) r = Some x" using r(1) \<open>r \<noteq> rid\<close> by simp
        moreover have "\<forall>r' \<in> dom (c(rid \<mapsto> ?pid)). r \<le> r'" using r(2) False by auto
        ultimately show ?thesis using Some by (intro is_lowestI [of _ r]) auto
      qed
    qed
    have "relay_inv ?t"
    proof (rule relay_invI)
      fix pid assume "rl_next ?t \<le> pid" then show "rl_heap ?t pid = None"
        using relay_inv_fresh [OF inv, of pid] by simp
    next
      fix u d r x assume d: "rl_relayPorts ?t u = Some d" "d r = Some x"
      have old: "?h x = Some q" if "rl_heap s x = Some q" for q
        using that fresh by auto
      show "(\<exists>p. rl_heap ?t x = Some p \<and> pp_relayID p = r \<and> peer_ref (pp_peer p) = u) \<and> x \<in> rl_onClose ?t"
      proof (cases "u = ?u")
        case False
        then have "rl_relayPorts s u = Some d" using d(1) by simp
        from relay_inv_entry [OF inv this d(2)] obtain q where
          q: "rl_heap s x = Some q" "pp_relayID q = r" "peer_ref (pp_peer q) = u" "x \<in> rl_onClose s" .
        from old [OF q(1)] q(2-4) show ?thesis by simp
      next
        case True
        then have d': "d = ?c(rid \<mapsto> ?pid)" using d(1) by simp
        show ?thesis
        proof (cases "r = rid")
          case True
          then show ?thesis using d' d(2) \<open>u = ?u\<close> by auto
        next
          case False
          then have "?c r = Some x" using d' d(2) by simp
          from c_entry [OF this] obtain q where
            q: "rl_heap s x = Some q" "pp_relayID q = r" "peer_ref (pp_peer q) = ?u" "x \<in> rl_onClose s" by blast
          from old [OF q(1)] q(2-4) \<open>u = ?u\<close> show ?thesis by simp
        qed
      qed
    next
      fix u assume "rl_relayPorts ?t u = None"
      then show "rl_ports ?t u = None" using relay_inv_none [OF inv, of u] by (auto split: if_splits)
    next
      fix u d assume d: "rl_relayPorts ?t u = Some d"
      show "\<exists>pid. rl_ports ?t u = Some pid \<and> is_lowest d pid"
      proof (cases "u = ?u")
        case True
        then show ?thesis using d low by simp
      next
        case False
        then have "rl_relayPorts s u = Some d" using d by simp
        from relay_inv_lowest [OF inv this] False show ?thesis by auto
      qed
    qed
    then show ?thesis unfolding t .
  qed
qed


text \<open>The registry after a close, in one piece.\<close>

lemma unregisterPort_None:
  "rl_relayPorts s u = None \<Longrightarrow> rl_ports s u = None \<Longrightarrow> unregisterPort u pid order s = on_port pid port_closeDone s"
  by (simp add: unregisterPort_def Let_def fun_upd_idem)

definition conns_without :: "string \<Rightarrow> nat \<Rightarrow> (string \<Rightarrow> nat option) \<Rightarrow> (string \<Rightarrow> nat option)" where
  "conns_without rid pid c = (if c rid = Some pid then c(rid := None) else c)"

lemma unregisterPort_Some:
  assumes "rl_relayPorts s u = Some c"
  shows "unregisterPort u pid order s =
    on_port pid port_closeDone
     (s\<lparr>rl_relayPorts := (rl_relayPorts s)(u :=
          (if conns_without (relay_of s pid) pid c = Map.empty then None
           else Some (conns_without (relay_of s pid) pid c))),
        rl_ports := (if rl_ports s u = Some pid
           then (rl_ports s)(u := promote (relay_of s) order None) else rl_ports s)\<rparr>)"
  using assms unfolding conns_without_def by (simp add: unregisterPort_def Let_def)

lemma remaining_Some:
  "rl_relayPorts s u = Some c \<Longrightarrow> remaining u pid s = ran (conns_without (relay_of s pid) pid c)"
  by (simp add: remaining_def conns_without_def)

lemma relay_inv_unregister:
  assumes inv: "relay_inv s" and p: "rl_heap s pid = Some p"
    and ord: "set order = remaining (peer_ref (pp_peer p)) pid s"
  shows "relay_inv (unregisterPort (peer_ref (pp_peer p)) pid order s)"
proof (cases "rl_relayPorts s (peer_ref (pp_peer p))")
  case None
  then show ?thesis using relay_inv_none [OF inv None]
    by (simp add: unregisterPort_None relay_inv_on_port [OF inv] port_ops_frame)
next
  case (Some c)
  let ?u = "peer_ref (pp_peer p)"
  define c' where "c' = conns_without (relay_of s pid) pid c"
  define sel where "sel = (if rl_ports s ?u = Some pid then promote (relay_of s) order None else rl_ports s ?u)"
  let ?t = "s\<lparr>rl_relayPorts := (rl_relayPorts s)(?u := (if c' = Map.empty then None else Some c')),
             rl_ports := (if rl_ports s ?u = Some pid then (rl_ports s)(?u := promote (relay_of s) order None) else rl_ports s)\<rparr>"
  have ord': "set order = ran c'" using ord Some by (simp add: remaining_Some c'_def)
  have sub: "c r = Some x" if "c' r = Some x" for r x
    using that by (auto simp: c'_def conns_without_def split: if_splits)
  have rid: "relay_of s x = r" if "c r = Some x" for r x
    by (rule relay_inv_rid [OF inv Some that])
  have gone: "c' r \<noteq> Some pid" for r
    using rid [of r pid] by (auto simp: c'_def conns_without_def)
  have keep: "c' r = Some x" if "c r = Some x" "x \<noteq> pid" for r x
    using that by (auto simp: c'_def conns_without_def)
  have ports_u: "rl_ports ?t ?u = sel" and ports_o: "u \<noteq> ?u \<Longrightarrow> rl_ports ?t u = rl_ports s u" for u
    by (auto simp: sel_def)
  from relay_inv_lowest [OF inv Some] obtain x where x: "rl_ports s ?u = Some x" "is_lowest c x" .
  then obtain r where r: "c r = Some x" "\<forall>r' \<in> dom c. r \<le> r'" by (auto simp: is_lowest_def)
  have empty: "sel = None" if "c' = Map.empty"
  proof -
    have "x = pid" using keep [OF r(1)] that by auto
    moreover have "order = []" using ord' that by simp
    ultimately show ?thesis using x(1) by (simp add: sel_def)
  qed
  have lowest: "\<exists>y. sel = Some y \<and> is_lowest c' y" if ne: "c' \<noteq> Map.empty"
  proof (cases "x = pid")
    case False
    have "is_lowest c' x"
      by (rule is_lowestI [where rid = r]) (use keep [OF r(1) False] r(2) sub in \<open>auto simp: dom_def\<close>)
    then show ?thesis using x(1) False by (simp add: sel_def)
  next
    case True
    from ne obtain r0 y0 where "c' r0 = Some y0" by (meson ext not_None_eq)
    then have "order \<noteq> []" using ord' by (auto simp: ran_def)
    then obtain y where y: "promote (relay_of s) order None = Some y" "y \<in> set order"
      "\<forall>z \<in> set order. relay_of s y \<le> relay_of s z"
      by (rule promote_lowest)
    then obtain ry where ry: "c' ry = Some y" using ord' by (auto simp: ran_def)
    have "\<forall>r' \<in> dom c'. ry \<le> r'"
    proof
      fix r' assume "r' \<in> dom c'"
      then obtain z where z: "c' r' = Some z" by blast
      then have "z \<in> set order" using ord' by (auto simp: ran_def)
      with y(3) rid [OF sub [OF ry]] rid [OF sub [OF z]] show "ry \<le> r'" by auto
    qed
    with ry have "is_lowest c' y" by (rule is_lowestI)
    then show ?thesis using y(1) x(1) True by (simp add: sel_def)
  qed
  have "relay_inv ?t"
  proof (rule relay_invI)
    fix q assume "rl_next ?t \<le> q" then show "rl_heap ?t q = None"
      using relay_inv_fresh [OF inv, of q] by simp
  next
    fix u d ra y assume d: "rl_relayPorts ?t u = Some d" "d ra = Some y"
    then obtain d0 where "rl_relayPorts s u = Some d0" "d0 ra = Some y"
      using Some sub by (cases "u = ?u") (auto split: if_splits)
    from relay_inv_entry [OF inv this] obtain q where
      "rl_heap s y = Some q" "pp_relayID q = ra" "peer_ref (pp_peer q) = u" "y \<in> rl_onClose s" .
    then show "(\<exists>p. rl_heap ?t y = Some p \<and> pp_relayID p = ra \<and> peer_ref (pp_peer p) = u) \<and> y \<in> rl_onClose ?t"
      by simp
  next
    fix u assume d: "rl_relayPorts ?t u = None"
    show "rl_ports ?t u = None"
    proof (cases "u = ?u")
      case True
      then have "c' = Map.empty" using d by (auto split: if_splits)
      then show ?thesis using ports_u empty True by simp
    next
      case False
      then show ?thesis using d ports_o relay_inv_none [OF inv, of u] by simp
    qed
  next
    fix u d assume d: "rl_relayPorts ?t u = Some d"
    show "\<exists>y. rl_ports ?t u = Some y \<and> is_lowest d y"
    proof (cases "u = ?u")
      case True
      then have "c' \<noteq> Map.empty" "d = c'" using d by (auto split: if_splits)
      then show ?thesis using ports_u lowest True by simp
    next
      case False
      then have "rl_relayPorts s u = Some d" using d by simp
      from relay_inv_lowest [OF inv this] ports_o [OF False] show ?thesis by auto
    qed
  qed
  then have "relay_inv (on_port pid port_closeDone ?t)"
    by (rule relay_inv_on_port) (simp add: port_ops_frame)
  then show ?thesis unfolding unregisterPort_Some [OF Some] c'_def .
qed

lemma relay_step_inv: "relay_inv s \<Longrightarrow> relay_step s t \<Longrightarrow> relay_inv t"
  by (erule relay_stepE)
     (simp_all add: relay_inv_register relay_inv_unregister relay_inv_closePorts relay_inv_on_port port_ops_frame)

interpretation relay: machine "\<lambda>s. s = relay_start" relay_step relay_inv
  by unfold_locales (simp_all add: relay_inv_start, rule relay_step_inv)

text \<open>C12. However connections are registered and closed, by whichever side and in whatever order,
  the outbound port of a user is the live relay connection with the lowest relay ID: there is
  one exactly when the user has a live connection, and closing the selected one promotes the
  lowest of the rest, whatever order the map is visited in.\<close>

theorem relay_selects_lowest:
  assumes "relay_step\<^sup>*\<^sup>* relay_start s"
  shows "(case rl_relayPorts s user of
            None \<Rightarrow> rl_ports s user = None
          | Some conns \<Rightarrow> (\<exists>rid pid. rl_ports s user = Some pid \<and> conns rid = Some pid \<and>
              relay_of s pid = rid \<and> (\<forall>rid' \<in> dom conns. rid \<le> rid')))"
proof -
  have inv: "relay_inv s" by (rule relay.run_inv [OF refl assms])
  show ?thesis
  proof (cases "rl_relayPorts s user")
    case None
    then show ?thesis using relay_inv_none [OF inv] by simp
  next
    case (Some c)
    from relay_inv_lowest [OF inv Some] obtain pid where p: "rl_ports s user = Some pid" "is_lowest c pid" .
    then obtain rid where r: "c rid = Some pid" "\<forall>r' \<in> dom c. rid \<le> r'" by (auto simp: is_lowest_def)
    have "relay_of s pid = rid" by (rule relay_inv_rid [OF inv Some r(1)])
    with Some p(1) r show ?thesis by auto
  qed
qed

text \<open>A run: two connections of one user, then the selected one closes.\<close>

theorem relay_selects_lowest_witness:
  "\<exists>s. relay_step\<^sup>*\<^sup>* relay_start s \<and> rl_ports s (UserRef 1 2) = Some 0 \<and>
     rl_relayPorts s (UserRef 1 2) \<noteq> None"
proof -
  let ?p = "peer_with ''a'' 2 []"
  let ?s1 = "fst (registerPort 4 ?p ''r2'' relay_start)"
  let ?s2 = "fst (registerPort 4 ?p ''r1'' ?s1)"
  let ?s3 = "unregisterPort (UserRef 1 2) 1 [0] ?s2"
  have refp: "peer_ref ?p = UserRef 1 2" by (simp add: peer_with_def UserRef_ToTurntf_def)
  have s1: "?s1 = \<lparr>rl_heap = [0 \<mapsto> \<lparr>pp_peer = ?p, pp_relayID = ''r2'', pp_queue = [], pp_slots = 4, pp_done = False,
      pp_aborted = False\<rparr>], rl_next = 1, rl_ports = [UserRef 1 2 \<mapsto> 0],
      rl_relayPorts = [UserRef 1 2 \<mapsto> [''r2'' \<mapsto> 0]], rl_onClose = {0}\<rparr>"
    by (simp add: registerPort_def relay_start_def Let_def refp)
  have less: "''r1'' < ''r2''" by simp
  have s2: "rl_relayPorts ?s2 = [UserRef 1 2 \<mapsto> [''r2'' \<mapsto> 0, ''r1'' \<mapsto> 1]]" "rl_ports ?s2 = [UserRef 1 2 \<mapsto> 1]"
    "rl_onClose ?s2 = {0, 1}" "rl_heap ?s2 1 = Some \<lparr>pp_peer = ?p, pp_relayID = ''r1'', pp_queue = [],
       pp_slots = 4, pp_done = False, pp_aborted = False\<rparr>"
    unfolding s1 using less by (auto simp: registerPort_def Let_def refp)
  have step1: "relay_step relay_start ?s1" and step2: "relay_step ?s1 ?s2" by (rule relay_step.register)+
  have rem: "remaining (UserRef 1 2) 1 ?s2 = {0}"
    using s2 by (auto simp: remaining_def ran_def split: if_splits)
  have step3: "relay_step ?s2 ?s3"
    using relay_step.connection_closed [of 1 ?s2 _ "[0]"] s2 rem refp by auto
  from step1 step2 step3 have run: "relay_step\<^sup>*\<^sup>* relay_start ?s3"
    by (meson rtranclp.rtrancl_into_rtrancl rtranclp.rtrancl_refl)
  have s3: "rl_relayPorts ?s3 (UserRef 1 2) = Some [''r2'' \<mapsto> 0]"
    using s2 by (auto simp: unregisterPort_def Let_def on_port_def fun_eq_iff)
  from relay_selects_lowest [OF run, of "UserRef 1 2"] s3 have "rl_ports ?s3 (UserRef 1 2) = Some 0"
    by (auto split: if_splits)
  with run s3 show ?thesis by blast
qed

end
