(* ===== verification/Framing.thy ===== *)
theory Framing
  imports Prelude
begin

text \<open>
  The contract of a batch format: packets are appended to a batch behind a length prefix as long
  as the frame limit allows, and a parser of the batch body gives the packets back. Two parts of
  the program implement it, the relay batches of batch.go and the stream batches of stream.go; what
  both rely on (a filled batch holds a prefix of the backlog, in order, within the limit, and
  parses to that prefix) is proved here once.
\<close>

text \<open>
  Appending packets of a backlog until one is refused: the batch, the packets taken and the ones
  left, the refused one first.
\<close>

fun fill :: "(bytes \<Rightarrow> bytes \<Rightarrow> bytes \<times> bool) \<Rightarrow> bytes \<Rightarrow> bytes list \<Rightarrow> bytes \<times> bytes list \<times> bytes list" where
  "fill put b [] = (b, [], [])"
| "fill put b (p # ps) =
     (let (b', added) = put b p in
      if added then (let (b'', taken, left) = fill put b' ps in (b'', p # taken, left))
      else (b', [], p # ps))"

lemma fill_split: "fill put b ps = (b', taken, left) \<Longrightarrow> ps = taken @ left"
  by (induction ps arbitrary: b taken) (auto split: prod.splits if_splits)

locale framing =
  fixes put :: "bytes \<Rightarrow> bytes \<Rightarrow> bytes \<times> bool"
    and item :: "bytes \<Rightarrow> bytes"
    and parse :: "bytes \<Rightarrow> bytes list option"
    and valid :: "bytes \<Rightarrow> bool"
    and limit :: nat
  assumes put_added: "b \<noteq> [] \<Longrightarrow> put b p = (b', True) \<Longrightarrow> b' = b @ item p \<and> length b' \<le> limit"
    and put_refused: "b \<noteq> [] \<Longrightarrow> put b p = (b', False) \<Longrightarrow> b' = b"
    and put_fits: "b \<noteq> [] \<Longrightarrow> put b p = (b', False) \<Longrightarrow> 0 < length p \<Longrightarrow> length p \<le> 65535 \<Longrightarrow>
      limit < length b + length (item p)"
    and parse_nil: "parse [] = Some []"
    and parse_item: "valid p \<Longrightarrow> parse (item p @ rest) = map_option (Cons p) (parse rest)"
    and parse_sound: "parse body = Some ps \<Longrightarrow> body = concat (map item ps) \<and> list_all valid ps"
begin

lemma fill_content: "b \<noteq> [] \<Longrightarrow> fill put b ps = (b', taken, left) \<Longrightarrow> b' = b @ concat (map item taken)"
proof (induction ps arbitrary: b b' taken left)
  case Nil
  then show ?case by simp
next
  case (Cons p ps)
  obtain b1 added where b1: "put b p = (b1, added)" by force
  show ?case
  proof (cases added)
    case True
    with b1 have eq: "b1 = b @ item p" using put_added [OF Cons.prems(1), of p b1] by simp
    obtain b2 t2 l2 where f: "fill put b1 ps = (b2, t2, l2)" by (cases "fill put b1 ps") auto
    have "b2 = b1 @ concat (map item t2)" by (rule Cons.IH [OF _ ]) (use eq Cons.prems(1) f in auto)
    with Cons.prems(2) b1 True f eq show ?thesis by auto
  next
    case False
    with b1 have "b1 = b" using put_refused [OF Cons.prems(1)] by simp
    with Cons.prems(2) b1 False show ?thesis by simp
  qed
qed

lemma fill_limit:
  "b \<noteq> [] \<Longrightarrow> length b \<le> limit \<Longrightarrow> fill put b ps = (b', taken, left) \<Longrightarrow> length b' \<le> limit"
proof (induction ps arbitrary: b b' taken left)
  case (Cons p ps)
  obtain b1 added where b1: "put b p = (b1, added)" by force
  show ?case
  proof (cases added)
    case True
    then have l: "b1 = b @ item p \<and> length b1 \<le> limit" using put_added [OF Cons.prems(1), of p b1] b1 by auto
    obtain b2 t2 l2 where f: "fill put b1 ps = (b2, t2, l2)" by (cases "fill put b1 ps") auto
    have "length b2 \<le> limit" by (rule Cons.IH [OF _ _ ]) (use l Cons.prems(1) f in auto)
    with Cons.prems(3) b1 True f show ?thesis by simp
  next
    case False
    then have "b1 = b" using put_refused [OF Cons.prems(1)] b1 by simp
    with Cons.prems b1 False show ?thesis by simp
  qed
qed simp

text \<open>A batch is left short of its backlog only when the next packet would exceed the limit.\<close>

lemma fill_maximal:
  "b \<noteq> [] \<Longrightarrow> fill put b ps = (b', taken, p # left) \<Longrightarrow> 0 < length p \<Longrightarrow> length p \<le> 65535 \<Longrightarrow>
   limit < length b' + length (item p)"
proof (induction ps arbitrary: b taken)
  case (Cons q ps)
  obtain b1 added where b1: "put b q = (b1, added)" by force
  show ?case
  proof (cases added)
    case True
    then have "b1 = b @ item q" using put_added [OF Cons.prems(1), of q b1] b1 by simp
    then have ne: "b1 \<noteq> []" using Cons.prems(1) by simp
    obtain b2 t2 l2 where f: "fill put b1 ps = (b2, t2, l2)" by (cases "fill put b1 ps") auto
    show ?thesis using Cons.IH [OF ne] Cons.prems b1 True f by auto
  next
    case False
    then have "b1 = b" using put_refused [OF Cons.prems(1)] b1 by simp
    with Cons.prems b1 False put_fits [OF Cons.prems(1)] show ?thesis by auto
  qed
qed simp

lemma parse_items: "list_all valid ps \<Longrightarrow> parse (concat (map item ps)) = Some ps"
  by (induction ps) (auto simp: parse_nil parse_item)

lemma parse_unique: "parse x = Some ps \<Longrightarrow> parse y = Some ps \<Longrightarrow> x = y"
  using parse_sound [of x ps] parse_sound [of y ps] by simp

lemma fill_parse:
  assumes "b \<noteq> []" "fill put b ps = (b', taken, left)" "list_all valid ps"
  shows "parse (drop (length b) b') = Some taken"
proof -
  have "b' = b @ concat (map item taken)" by (rule fill_content [OF assms(1,2)])
  moreover have "list_all valid taken" using fill_split [OF assms(2)] assms(3) by simp
  ultimately show ?thesis by (simp add: parse_items)
qed

text \<open>Filling in two goes, the second one from what arrived meanwhile, is filling in one go.\<close>

lemma fill_append:
  assumes "b \<noteq> []" "fill put b ps = (b1, ps, [])"
  shows "fill put b (ps @ qs) = (let (b2, taken, left) = fill put b1 qs in (b2, ps @ taken, left))"
  using assms
proof (induction ps arbitrary: b)
  case Nil
  then show ?case by (auto split: prod.splits)
next
  case (Cons p ps)
  obtain b' added where b': "put b p = (b', added)" by force
  with Cons.prems have a: added by (auto split: if_splits)
  then have "b' = b @ item p" using put_added [OF Cons.prems(1), of p b'] b' by simp
  then have ne: "b' \<noteq> []" using Cons.prems(1) by simp
  have "fill put b' ps = (b1, ps, [])"
    using Cons.prems(2) b' a by (auto split: prod.splits)
  from Cons.IH [OF ne this] b' a show ?case by (simp split: prod.splits)
qed

end

end
