(* ===== verification/TunBatch.thy ===== *)
theory TunBatch
  imports Framing
begin

text \<open>
  The relay batch format of internal/tun/batch.go: a five byte magic, then packets behind four
  byte big-endian lengths, at most 128 KiB in all. \<open>appendTunBatch\<close> builds a batch,
  \<open>decodeTunBatch\<close> hands the packets of a frame to a callback (the TUN write) as it goes, so that
  a malformed frame is reported after the packets in front of the fault were delivered. The
  callback is a state transformer that may fail; \<open>maxPacketBytes\<close> is the configured \<open>int\<close>.
\<close>

section \<open>The code\<close>

definition tunBatchMagic :: bytes where
  "tunBatchMagic = [0x54, 0x54, 0x55, 0x4e, 0x01]"

definition tunBatchMaxBytes :: nat where
  "tunBatchMaxBytes = 128 * 1024"

definition appendTunBatch :: "bytes \<Rightarrow> bytes \<Rightarrow> bytes \<times> bool" where
  "appendTunBatch dst packet =
     (if length packet = 0 \<or> length packet > 65535 then (dst, False)
      else let dst = (if length dst = 0 then tunBatchMagic else dst)
           in if length dst + 4 + length packet > tunBatchMaxBytes then (dst, False)
              else (dst @ putUint32 (of_nat (length packet)) @ packet, True))"

datatype 'e batch_error =
    InvalidUnframed
  | TruncatedTunLength
  | InvalidTunLength nat
  | EmptyTunBatch
  | CallbackFailed 'e

text \<open>The loop over \<open>frame[pos:]\<close>; \<open>count\<close> packets have been delivered.\<close>

function decodeTunLoop ::
    "int \<Rightarrow> (bytes \<Rightarrow> 's \<Rightarrow> 'e option \<times> 's) \<Rightarrow> bytes \<Rightarrow> nat \<Rightarrow> 's \<Rightarrow> 'e batch_error option \<times> 's" where
  "decodeTunLoop maxPacketBytes fn rest count s =
     (if rest = [] then (if count = 0 then Some EmptyTunBatch else None, s)
      else if length rest < 4 then (Some TruncatedTunLength, s)
      else let len = unat (getUint32 (take 4 rest)); body = drop 4 rest
           in if len = 0 \<or> int len > maxPacketBytes \<or> len > length body
              then (Some (InvalidTunLength len), s)
              else case fn (take len body) s of
                     (Some e, s') \<Rightarrow> (Some (CallbackFailed e), s')
                   | (None, s') \<Rightarrow> decodeTunLoop maxPacketBytes fn (drop len body) (Suc count) s')"
  by pat_completeness auto
termination
  by (relation "measure (\<lambda>(m, fn, rest, count, s). length rest)") auto

declare decodeTunLoop.simps [simp del]

definition decodeTunBatch ::
    "bytes \<Rightarrow> int \<Rightarrow> (bytes \<Rightarrow> 's \<Rightarrow> 'e option \<times> 's) \<Rightarrow> 's \<Rightarrow> 'e batch_error option \<times> 's" where
  "decodeTunBatch frame maxPacketBytes fn s =
     (if length frame < length tunBatchMagic \<or>
         take (length tunBatchMagic) frame \<noteq> tunBatchMagic
      then if length frame = 0 \<or> int (length frame) > maxPacketBytes
           then (Some InvalidUnframed, s)
           else (case fn frame s of
                   (Some e, s') \<Rightarrow> (Some (CallbackFailed e), s')
                 | (None, s') \<Rightarrow> (None, s'))
      else decodeTunLoop maxPacketBytes fn (drop (length tunBatchMagic) frame) 0 s)"

section \<open>The format as a parser\<close>

text \<open>What a batch body means, apart from delivery: the list of its packets.\<close>

definition tun_valid :: "int \<Rightarrow> bytes \<Rightarrow> bool" where
  "tun_valid m p \<longleftrightarrow> 0 < length p \<and> int (length p) \<le> m \<and> length p < 2 ^ 32"

definition tun_item :: "bytes \<Rightarrow> bytes" where
  "tun_item p = putUint32 (of_nat (length p)) @ p"

function tun_parse :: "int \<Rightarrow> bytes \<Rightarrow> bytes list option" where
  "tun_parse m rest =
     (if rest = [] then Some []
      else if length rest < 4 then None
      else let len = unat (getUint32 (take 4 rest)); body = drop 4 rest
           in if len = 0 \<or> int len > m \<or> len > length body then None
              else map_option (Cons (take len body)) (tun_parse m (drop len body)))"
  by pat_completeness auto
termination
  by (relation "measure (\<lambda>(m, rest). length rest)") auto

declare tun_parse.simps [simp del]

text \<open>Delivering packets one by one until the callback fails.\<close>

fun deliver :: "(bytes \<Rightarrow> 's \<Rightarrow> 'e option \<times> 's) \<Rightarrow> bytes list \<Rightarrow> 's \<Rightarrow> 'e option \<times> 's" where
  "deliver fn [] s = (None, s)"
| "deliver fn (p # ps) s =
     (case fn p s of (Some e, s') \<Rightarrow> (Some e, s') | (None, s') \<Rightarrow> deliver fn ps s')"

lemma tun_magic_length [simp]: "length tunBatchMagic = 5"
  by (simp add: tunBatchMagic_def)

lemma tun_magic_ne [simp]: "tunBatchMagic \<noteq> []"
  by (simp add: tunBatchMagic_def)

lemma tun_item_length [simp]: "length (tun_item p) = 4 + length p"
  by (simp add: tun_item_def)

lemma tun_item_take: "take 4 (tun_item p) = putUint32 (of_nat (length p))"
  by (simp add: tun_item_def)

lemma tun_item_drop [simp]: "drop 4 (tun_item p) = p"
  by (simp add: tun_item_def)

lemma tun_item_nonempty [simp]: "tun_item p \<noteq> []"
  by (simp add: tun_item_def putUint32_def)

lemma getUint32_put' [simp]: "getUint32 (putUint32 v) = v"
  using getUint32_put [of v "[]"] by simp

lemma tun_item_get: "length p < 2 ^ 32 \<Longrightarrow> unat (getUint32 (take 4 (tun_item p))) = length p"
  by (simp add: tun_item_take unat_of_nat_u32)

lemma tun_item_get_int: "length p < 2 ^ 32 \<Longrightarrow> uint (getUint32 (take 4 (tun_item p))) = int (length p)"
  using tun_item_get [of p] by (metis uint_nat)

lemma tun_parse_item:
  assumes "tun_valid m p"
  shows "tun_parse m (tun_item p @ rest) = map_option (Cons p) (tun_parse m rest)"
  using assms
  by (subst tun_parse.simps)
     (simp add: Let_def tun_item_get tun_item_get_int tun_valid_def)

lemma tun_item_rebuild:
  assumes "4 \<le> length rest" "unat (getUint32 (take 4 rest)) = len" "len \<le> length (drop 4 rest)"
  shows "tun_item (take len (drop 4 rest)) @ drop len (drop 4 rest) = rest"
proof -
  have "of_nat (length (take len (drop 4 rest))) = getUint32 (take 4 rest)"
    using assms by (simp add: min_def flip: assms(2))
  then have "tun_item (take len (drop 4 rest)) = take 4 rest @ take len (drop 4 rest)"
    using assms(1) by (simp add: tun_item_def putUint32_get)
  then show ?thesis by (simp only: append_assoc append_take_drop_id)
qed

lemma tun_parse_sound:
  "tun_parse m body = Some ps \<Longrightarrow> body = concat (map tun_item ps) \<and> list_all (tun_valid m) ps"
proof (induction m body arbitrary: ps rule: tun_parse.induct)
  case (1 m rest)
  show ?case
  proof (cases "rest = []")
    case True
    with 1(2) show ?thesis by (simp add: tun_parse.simps)
  next
    case ne: False
    let ?len = "unat (getUint32 (take 4 rest))" and ?body = "drop 4 rest"
    from 1(2) ne have four: "4 \<le> length rest"
      by (subst (asm) tun_parse.simps) (auto split: if_splits)
    from 1(2) ne four have ok: "\<not> (?len = 0 \<or> int ?len > m \<or> ?len > length ?body)"
      by (subst (asm) tun_parse.simps) (auto simp: Let_def split: if_splits)
    with 1(2) ne four obtain ps' where ps: "ps = take ?len ?body # ps'"
      and rec: "tun_parse m (drop ?len ?body) = Some ps'"
      by (subst (asm) tun_parse.simps) (auto simp: Let_def)
    have IH: "drop ?len ?body = concat (map tun_item ps') \<and> list_all (tun_valid m) ps'"
      by (rule 1(1) [OF ne _ refl refl ok rec]) (use four in simp)
    have "?len < 2 ^ 32" using unsigned_less [of "getUint32 (take 4 rest)"] by simp
    then have "tun_valid m (take ?len ?body)" using ok by (auto simp: tun_valid_def min_def)
    moreover have "rest = tun_item (take ?len ?body) @ drop ?len ?body"
      by (rule sym [OF tun_item_rebuild]) (use four ok in auto)
    ultimately show ?thesis using IH ps by (metis concat.simps(2) list.simps(9) list.pred_inject(2))
  qed
qed

section \<open>The two directions meet\<close>

lemma append_added:
  assumes "b \<noteq> []" "appendTunBatch b p = (b', True)"
  shows "b' = b @ tun_item p \<and> length b' \<le> tunBatchMaxBytes"
  using assms by (auto simp: appendTunBatch_def tun_item_def Let_def split: if_splits)

interpretation tun: framing appendTunBatch tun_item "tun_parse m" "tun_valid m" tunBatchMaxBytes for m
proof
  fix b p b' assume "b \<noteq> []" "appendTunBatch b p = (b', True)"
  then show "b' = b @ tun_item p \<and> length b' \<le> tunBatchMaxBytes" by (rule append_added)
next
  fix b p b' assume "b \<noteq> []" "appendTunBatch b p = (b', False)"
  then show "b' = b" by (auto simp: appendTunBatch_def Let_def split: if_splits)
next
  fix b p b' assume "b \<noteq> []" "appendTunBatch b p = (b', False)" "0 < length p" "length p \<le> 65535"
  then show "tunBatchMaxBytes < length b + length (tun_item p)"
    by (auto simp: appendTunBatch_def Let_def split: if_splits)
next
  show "tun_parse m [] = Some []" by (simp add: tun_parse.simps)
qed (simp_all add: tun_parse_item tun_parse_sound)

text \<open>On a well-formed body the loop delivers the packets in order.\<close>

lemma decodeTunLoop_parse:
  "tun_parse m rest = Some ps \<Longrightarrow>
   decodeTunLoop m fn rest count s =
     (if count = 0 \<and> ps = [] then (Some EmptyTunBatch, s)
      else apfst (map_option CallbackFailed) (deliver fn ps s))"
proof (induction m rest arbitrary: ps count s rule: tun_parse.induct)
  case (1 m rest)
  show ?case
  proof (cases "rest = []")
    case True
    with 1(2) show ?thesis by (simp add: tun_parse.simps decodeTunLoop.simps)
  next
    case ne: False
    let ?len = "unat (getUint32 (take 4 rest))" and ?body = "drop 4 rest"
    from 1(2) ne have four: "\<not> length rest < 4"
      by (subst (asm) tun_parse.simps) (auto split: if_splits)
    from 1(2) ne four have ok: "\<not> (?len = 0 \<or> int ?len > m \<or> ?len > length ?body)"
      by (subst (asm) tun_parse.simps) (auto simp: Let_def split: if_splits)
    with 1(2) ne four obtain ps' where ps: "ps = take ?len ?body # ps'"
      and rec: "tun_parse m (drop ?len ?body) = Some ps'"
      by (subst (asm) tun_parse.simps) (auto simp: Let_def)
    note IH = 1(1) [OF ne four refl refl ok rec]
    show ?thesis
      by (subst decodeTunLoop.simps)
         (use ne four ok in \<open>simp add: Let_def ps IH del: drop_drop split: prod.splits option.splits\<close>)
  qed
qed

section \<open>Any frame\<close>

text \<open>
  What decoding does on an arbitrary body, without the callback: the packets in front of the
  first fault, and the fault.
\<close>

function tun_scan :: "int \<Rightarrow> bytes \<Rightarrow> nat \<Rightarrow> bytes list \<times> 'e batch_error option" where
  "tun_scan m rest count =
     (if rest = [] then ([], if count = 0 then Some EmptyTunBatch else None)
      else if length rest < 4 then ([], Some TruncatedTunLength)
      else let len = unat (getUint32 (take 4 rest)); body = drop 4 rest
           in if len = 0 \<or> int len > m \<or> len > length body
              then ([], Some (InvalidTunLength len))
              else apfst (Cons (take len body)) (tun_scan m (drop len body) (Suc count)))"
  by pat_completeness auto
termination
  by (relation "measure (\<lambda>(m, rest, count). length rest)") auto

declare tun_scan.simps [simp del]

definition tun_frame_scan :: "bytes \<Rightarrow> int \<Rightarrow> bytes list \<times> 'e batch_error option" where
  "tun_frame_scan frame m =
     (if take (length tunBatchMagic) frame \<noteq> tunBatchMagic
      then if frame = [] \<or> int (length frame) > m then ([], Some InvalidUnframed) else ([frame], None)
      else tun_scan m (drop (length tunBatchMagic) frame) 0)"

definition deliver_scan ::
    "(bytes \<Rightarrow> 's \<Rightarrow> 'e option \<times> 's) \<Rightarrow> bytes list \<times> 'e batch_error option \<Rightarrow> 's \<Rightarrow> 'e batch_error option \<times> 's" where
  "deliver_scan fn r s =
     (case deliver fn (fst r) s of (Some e, s') \<Rightarrow> (Some (CallbackFailed e), s') | (None, s') \<Rightarrow> (snd r, s'))"

lemma deliver_scan_Cons:
  "deliver_scan fn (apfst (Cons p) r) s =
   (case fn p s of (Some e, s') \<Rightarrow> (Some (CallbackFailed e), s') | (None, s') \<Rightarrow> deliver_scan fn r s')"
  by (auto simp: deliver_scan_def split: prod.splits option.splits)

lemma decodeTunLoop_scan: "decodeTunLoop m fn rest count s = deliver_scan fn (tun_scan m rest count) s"
proof (induction m fn rest count s rule: decodeTunLoop.induct)
  case (1 m fn rest count s)
  show ?case
  proof (cases "rest = [] \<or> length rest < 4")
    case True
    then show ?thesis
      by (auto simp: decodeTunLoop.simps [of m fn rest] tun_scan.simps [of m rest] deliver_scan_def)
  next
    case False
    let ?len = "unat (getUint32 (take 4 rest))" and ?body = "drop 4 rest"
    show ?thesis
    proof (cases "?len = 0 \<or> int ?len > m \<or> ?len > length ?body")
      case True
      with False show ?thesis
        by (simp add: decodeTunLoop.simps [of m fn rest] tun_scan.simps [of m rest] deliver_scan_def Let_def)
    next
      case ok: False
      have f: "rest \<noteq> []" "\<not> length rest < 4" using False by auto
      have "decodeTunLoop m fn rest count s =
          (case fn (take ?len ?body) s of (Some e, s') \<Rightarrow> (Some (CallbackFailed e), s')
           | (None, s') \<Rightarrow> decodeTunLoop m fn (drop ?len ?body) (Suc count) s')"
        using f ok by (simp add: decodeTunLoop.simps [of m fn rest] Let_def del: drop_drop)
      also have "\<dots> = (case fn (take ?len ?body) s of (Some e, s') \<Rightarrow> (Some (CallbackFailed e), s')
           | (None, s') \<Rightarrow> deliver_scan fn (tun_scan m (drop ?len ?body) (Suc count)) s')"
        using "1.IH" [OF f refl refl ok] by (auto split: prod.splits option.splits)
      also have "\<dots> = deliver_scan fn (tun_scan m rest count) s"
        using f ok by (simp add: tun_scan.simps [of m rest] deliver_scan_Cons Let_def del: drop_drop)
      finally show ?thesis .
    qed
  qed
qed

lemma tun_valid_take:
  assumes "\<not> (unat w = 0 \<or> int (unat w) > m \<or> unat w > length body)"
  shows "tun_valid m (take (unat (w :: u32)) body)"
  using assms unsigned_less [of w] by (auto simp: tun_valid_def min_def)

lemma tun_scan_valid: "list_all (tun_valid m) (fst (tun_scan m rest count))"
proof (induction m rest count rule: tun_scan.induct)
  case (1 m rest count)
  let ?w = "getUint32 (take 4 rest)" and ?body = "drop 4 rest"
  show ?case
  proof (cases "rest = [] \<or> length rest < 4 \<or> unat ?w = 0 \<or> int (unat ?w) > m \<or> unat ?w > length ?body")
    case True
    then show ?thesis by (auto simp: tun_scan.simps [of m rest] Let_def)
  next
    case False
    then have ok: "\<not> (unat ?w = 0 \<or> int (unat ?w) > m \<or> unat ?w > length ?body)" by blast
    from False show ?thesis
      using "1.IH" [OF _ _ refl refl ok] tun_valid_take [OF ok]
      by (simp add: tun_scan.simps [of m rest] Let_def del: drop_drop)
  qed
qed

lemma tun_scan_parse:
  "tun_parse m rest = Some ps \<Longrightarrow> tun_scan m rest (Suc count) = (ps, None)"
proof (induction m rest arbitrary: ps count rule: tun_parse.induct)
  case (1 m rest)
  show ?case
    using 1(2) 1(1) by (subst (asm) tun_parse.simps, subst tun_scan.simps) (auto simp: Let_def split: if_splits)
qed

lemma take_magic_short: "length frame < length tunBatchMagic \<Longrightarrow> take (length tunBatchMagic) frame \<noteq> tunBatchMagic"
  by auto

text \<open>C13. Decoding a frame, well formed or not, is this: the packets in front of the first fault
  are handed to the callback one by one and in order, stopping at the callback's own failure; then
  the fault, if any, is reported. So a malformed relay frame is not all-or-nothing, and every
  packet that reaches the TUN device has between one and \<open>maxPacketBytes\<close> bytes.\<close>

theorem decodeTunBatch_delivers:
  "decodeTunBatch frame m fn s = deliver_scan fn (tun_frame_scan frame m) s \<and>
   list_all (\<lambda>p. 0 < length p \<and> int (length p) \<le> m)
     (fst (tun_frame_scan frame m :: bytes list \<times> 'e batch_error option))"
proof
  show "decodeTunBatch frame m fn s = deliver_scan fn (tun_frame_scan frame m) s"
    using take_magic_short [of frame]
    by (auto simp: decodeTunBatch_def tun_frame_scan_def decodeTunLoop_scan deliver_scan_def
        split: prod.splits option.splits)
next
  show "list_all (\<lambda>p. 0 < length p \<and> int (length p) \<le> m)
      (fst (tun_frame_scan frame m :: bytes list \<times> 'e batch_error option))"
    using tun_scan_valid [of m "drop 5 frame" 0]
    by (auto simp: tun_frame_scan_def list_all_iff tun_valid_def)
qed

end
