(* ===== verification/RelayLoop.thy ===== *)
theory RelayLoop
  imports TunBatch
begin

text \<open>
  The two loops of a relay connection in internal/tun/runtime.go. \<open>writeRelayLoop\<close> collects the
  packets of a port's send queue into batches, for at most a millisecond each, and sends them;
  \<open>readRelayLoop\<close> receives frames and writes their packets to the TUN device. Both are driven by
  what their blocking points return: a select branch that fires, the result of \<open>Send\<close>, the result
  of \<open>ReceiveTimeout\<close>. The loops are functions of the sequence of these events, so every
  interleaving of the queue, the timer and the connection is one sequence. Logging is left out.
\<close>

section \<open>writeRelayLoop\<close>

text \<open>
  Where the loop blocks: on the queue with no batch open, on the queue with a batch open, inside
  \<open>Send\<close> (with the packet that did not fit kept as \<open>pending\<close>), or nowhere any more. The flag of
  \<open>Returned\<close> tells whether the loop closed the port.
\<close>

datatype write_pc = WaitFirst | Collect bytes | Send bytes "bytes option" | Returned bool

datatype 'e write_event = PortDone | Got bytes | TimerFired | SendResult "'e option"

text \<open>The condition of the \<open>collect\<close> loop.\<close>

definition collect_loop :: "bytes \<Rightarrow> write_pc" where
  "collect_loop batch = (if length batch < tunBatchMaxBytes then Collect batch else Send batch None)"

text \<open>The head of the outer loop, up to its first blocking point.\<close>

fun loop_head :: "bytes option \<Rightarrow> write_pc" where
  "loop_head None = WaitFirst"
| "loop_head (Some pending) =
     (let (batch, ok) = appendTunBatch [] pending
      in if \<not> ok then WaitFirst else collect_loop batch)"

fun write_on :: "write_pc \<Rightarrow> 'e write_event \<Rightarrow> write_pc option" where
  "write_on WaitFirst PortDone = Some (Returned False)"
| "write_on WaitFirst (Got packet) = Some (loop_head (Some packet))"
| "write_on (Collect batch) PortDone = Some (Returned False)"
| "write_on (Collect batch) (Got packet) =
     (let (batch, added) = appendTunBatch batch packet
      in if \<not> added then Some (Send batch (Some packet)) else Some (collect_loop batch))"
| "write_on (Collect batch) TimerFired = Some (Send batch None)"
| "write_on (Send batch pending) (SendResult None) = Some (loop_head pending)"
| "write_on (Send batch pending) (SendResult (Some err)) = Some (Returned True)"
| "write_on _ _ = None"

fun sent_by :: "write_pc \<Rightarrow> 'e write_event \<Rightarrow> bytes list" where
  "sent_by (Send batch pending) (SendResult None) = [batch]"
| "sent_by _ _ = []"

text \<open>The loop on a sequence of events: where it stands and the batches sent. No value when an
  event is given that cannot happen at the point reached.\<close>

fun writeRelayLoop :: "'e write_event list \<Rightarrow> write_pc \<Rightarrow> bytes list \<Rightarrow> (write_pc \<times> bytes list) option" where
  "writeRelayLoop [] pc sent = Some (pc, sent)"
| "writeRelayLoop (ev # evs) pc sent =
     (case write_on pc ev of
        None \<Rightarrow> None
      | Some pc' \<Rightarrow> writeRelayLoop evs pc' (sent @ sent_by pc ev))"

section \<open>readRelayLoop\<close>

datatype recv_result = RecvTimeout | RecvFailed | RecvFrame bytes

text \<open>The flag tells whether the loop has returned, closing the port.\<close>

fun readRelayLoop ::
    "int \<Rightarrow> (bytes \<Rightarrow> 's \<Rightarrow> 'e option \<times> 's) \<Rightarrow> recv_result list \<Rightarrow> 's \<Rightarrow> bool \<times> 's" where
  "readRelayLoop maxPacketBytes fn [] s = (False, s)"
| "readRelayLoop maxPacketBytes fn (RecvTimeout # rs) s = readRelayLoop maxPacketBytes fn rs s"
| "readRelayLoop maxPacketBytes fn (RecvFailed # rs) s = (True, s)"
| "readRelayLoop maxPacketBytes fn (RecvFrame frame # rs) s =
     (case decodeTunBatch frame maxPacketBytes fn s of
        (Some err, s') \<Rightarrow> (True, s')
      | (None, s') \<Rightarrow> readRelayLoop maxPacketBytes fn rs s')"

section \<open>What the writer sends\<close>

text \<open>The packets a run takes off the queue, and those of them a batch can carry.\<close>

fun got :: "'e write_event \<Rightarrow> bytes list" where
  "got (Got p) = [p]"
| "got _ = []"

abbreviation queued :: "'e write_event list \<Rightarrow> bytes list" where
  "queued evs \<equiv> concat (map got evs)"

definition sendable :: "bytes \<Rightarrow> bool" where
  "sendable p \<longleftrightarrow> 0 < length p \<and> length p \<le> 65535"

definition tun_frame :: "bytes list \<Rightarrow> bytes" where
  "tun_frame ps = tunBatchMagic @ concat (map tun_item ps)"

definition good_batch :: "bytes list \<Rightarrow> bool" where
  "good_batch ps \<longleftrightarrow> ps \<noteq> [] \<and> list_all sendable ps \<and> length (tun_frame ps) \<le> tunBatchMaxBytes"

text \<open>The packets the loop holds at a blocking point: those of the open batch and the pending one.\<close>

fun holds :: "write_pc \<Rightarrow> bytes list \<Rightarrow> bool" where
  "holds WaitFirst ps = (ps = [])"
| "holds (Collect batch) ps = (good_batch ps \<and> batch = tun_frame ps)"
| "holds (Send batch pending) ps =
     (\<exists>qs. good_batch qs \<and> batch = tun_frame qs \<and> ps = qs @ filter sendable (case pending of None \<Rightarrow> [] | Some p \<Rightarrow> [p]))"
| "holds (Returned closed) ps = True"

lemma tun_frame_ne [simp]: "tun_frame ps \<noteq> []"
  by (simp add: tun_frame_def)

lemma tun_frame_snoc: "tun_frame (ps @ [p]) = tun_frame ps @ tun_item p"
  by (simp add: tun_frame_def)

lemma append_first:
  "appendTunBatch [] p = (if sendable p then (tun_frame [p], True) else ([], False))"
  by (auto simp: appendTunBatch_def sendable_def tun_frame_def tun_item_def tunBatchMaxBytes_def Let_def)

lemma append_added_good:
  assumes "good_batch ps" "appendTunBatch (tun_frame ps) p = (b, True)"
  shows "good_batch (ps @ [p]) \<and> b = tun_frame (ps @ [p]) \<and> sendable p"
proof -
  have "sendable p" using assms(2) by (auto simp: appendTunBatch_def sendable_def split: if_splits)
  with append_added [OF _ assms(2)] assms(1) show ?thesis
    by (auto simp: good_batch_def tun_frame_snoc)
qed

lemma append_not_added:
  "appendTunBatch (tun_frame ps) p = (b, False) \<Longrightarrow> b = tun_frame ps"
  by (auto simp: appendTunBatch_def Let_def split: if_splits)

lemma holds_collect: "good_batch ps \<Longrightarrow> holds (collect_loop (tun_frame ps)) ps"
  by (auto simp: collect_loop_def)

lemma good_single: "sendable p \<Longrightarrow> good_batch [p]"
  by (auto simp: good_batch_def sendable_def tun_frame_def tunBatchMaxBytes_def)

lemma holds_head:
  "holds (loop_head pending) (filter sendable (case pending of None \<Rightarrow> [] | Some p \<Rightarrow> [p]))"
  by (cases pending) (auto simp: append_first good_single holds_collect)

text \<open>One event: what was held and what came in is what was sent and what is held.\<close>

lemma write_on_holds:
  assumes "write_on pc ev = Some pc'" "holds pc ps"
  shows "\<exists>out ps'. sent_by pc ev = map tun_frame out \<and> list_all good_batch out \<and> holds pc' ps' \<and>
    ps @ filter sendable (got ev) = concat out @ ps'"
proof (cases pc)
  case WaitFirst
  show ?thesis
  proof (cases ev)
    case (Got p)
    have "holds (loop_head (Some p)) (filter sendable [p])" using holds_head [of "Some p"] by simp
    then show ?thesis using assms WaitFirst Got by (auto simp del: loop_head.simps intro!: exI [of _ "[]"])
  qed (use assms WaitFirst in \<open>auto intro!: exI [of _ "[]"]\<close>)
next
  case (Collect batch)
  with assms(2) have b: "good_batch ps" "batch = tun_frame ps" by auto
  show ?thesis
  proof (cases ev)
    case (Got p)
    obtain b' added where app: "appendTunBatch batch p = (b', added)" by force
    show ?thesis
    proof (cases added)
      case True
      with app b append_added_good [of ps p b'] have g: "good_batch (ps @ [p])" "b' = tun_frame (ps @ [p])" "sendable p"
        by auto
      with assms(1) Collect Got app True show ?thesis
        using holds_collect [OF g(1)] by (auto intro!: exI [of _ "[]"])
    next
      case False
      with app b append_not_added [of ps p b'] have "b' = tun_frame ps" by simp
      with assms(1) Collect Got app False b show ?thesis by (auto intro!: exI [of _ "[]"])
    qed
  qed (use assms(1) Collect b in \<open>auto intro!: exI [of _ "[]"]\<close>)
next
  case (Send batch pending)
  with assms(2) obtain qs where qs: "good_batch qs" "batch = tun_frame qs"
    "ps = qs @ filter sendable (case pending of None \<Rightarrow> [] | Some p \<Rightarrow> [p])" by auto
  show ?thesis
  proof (cases ev)
    case (SendResult r)
    show ?thesis
    proof (cases r)
      case None
      with assms(1) Send SendResult qs holds_head [of pending] show ?thesis
        by (auto intro!: exI [of _ "[qs]"])
    next
      case (Some e)
      with assms(1) Send SendResult show ?thesis by (auto intro!: exI [of _ "[]"])
    qed
  qed (use assms(1) Send in auto)
next
  case (Returned c)
  with assms(1) show ?thesis by simp
qed

lemma writeRelayLoop_holds:
  assumes "writeRelayLoop evs pc sent = Some (pc', sent')" "holds pc ps"
  shows "\<exists>out ps'. sent' = sent @ map tun_frame out \<and> list_all good_batch out \<and> holds pc' ps' \<and>
    ps @ filter sendable (queued evs) = concat out @ ps'"
  using assms
proof (induction evs arbitrary: pc sent ps)
  case Nil
  then show ?case by (auto intro!: exI [of _ "[]"])
next
  case (Cons ev evs)
  then obtain pc1 where s: "write_on pc ev = Some pc1"
    and r: "writeRelayLoop evs pc1 (sent @ sent_by pc ev) = Some (pc', sent')"
    by (auto split: option.splits)
  from write_on_holds [OF s Cons.prems(2)] obtain out1 ps1 where
    o1: "sent_by pc ev = map tun_frame out1" "list_all good_batch out1" "holds pc1 ps1"
      "ps @ filter sendable (got ev) = concat out1 @ ps1" by blast
  from Cons.IH [OF r o1(3)] obtain out2 ps2 where
    o2: "sent' = (sent @ sent_by pc ev) @ map tun_frame out2" "list_all good_batch out2" "holds pc' ps2"
      "ps1 @ filter sendable (queued evs) = concat out2 @ ps2" by blast
  have "ps @ filter sendable (queued (ev # evs)) = concat (out1 @ out2) @ ps2"
    using o1(4) o2(4) by (simp flip: append_assoc) (simp add: append_assoc)
  with o1 o2 show ?case
    by (intro exI [of _ "out1 @ out2"] exI [of _ ps2]) simp
qed

section \<open>What the reader delivers\<close>

text \<open>A device that takes every packet: the list of the packets written.\<close>

definition recording :: "bytes \<Rightarrow> bytes list \<Rightarrow> unit option \<times> bytes list" where
  "recording p written = (None, written @ [p])"

lemma deliver_recording: "deliver recording ps w = (None, w @ ps)"
  by (induction ps arbitrary: w) (auto simp: recording_def)

lemma decode_tun_frame:
  assumes "ps \<noteq> []" "list_all (tun_valid m) ps"
  shows "decodeTunBatch (tun_frame ps) m recording w = (None, w @ ps)"
  using decodeTunLoop_parse [OF tun.parse_items [OF assms(2)], where fn = recording and count = 0 and s = w] assms(1)
  by (simp add: decodeTunBatch_def tun_frame_def deliver_recording)

text \<open>The frames among the results of \<open>ReceiveTimeout\<close>.\<close>

fun received :: "recv_result \<Rightarrow> bytes list" where
  "received (RecvFrame f) = [f]"
| "received _ = []"

lemma readRelayLoop_frames:
  assumes "list_all (\<lambda>r. r \<noteq> RecvFailed) rs" "concat (map received rs) = map tun_frame out"
    and "list_all (\<lambda>ps. ps \<noteq> [] \<and> list_all (tun_valid m) ps) out"
  shows "readRelayLoop m recording rs w = (False, w @ concat out)"
  using assms
proof (induction rs arbitrary: out w)
  case Nil
  then show ?case by simp
next
  case (Cons r rs)
  show ?case
  proof (cases r)
    case RecvTimeout
    with Cons show ?thesis by simp
  next
    case RecvFailed
    with Cons show ?thesis by simp
  next
    case (RecvFrame f)
    with Cons.prems(2) obtain ps out' where out: "out = ps # out'" "f = tun_frame ps"
      "concat (map received rs) = map tun_frame out'" by (cases out) auto
    with Cons.prems(3) have "decodeTunBatch f m recording w = (None, w @ ps)"
      using decode_tun_frame [of ps m w] by simp
    moreover have "readRelayLoop m recording rs (w @ ps) = (False, (w @ ps) @ concat out')"
      by (rule Cons.IH) (use Cons.prems out in auto)
    ultimately show ?thesis using out RecvFrame by simp
  qed
qed

lemma good_batch_valid:
  "good_batch ps \<Longrightarrow> list_all (\<lambda>p. int (length p) \<le> m) ps \<Longrightarrow> list_all (tun_valid m) ps"
  by (auto simp: good_batch_def sendable_def tun_valid_def list_all_iff)

text \<open>C2. End to end over one relay connection: whatever the timing of the queue, the millisecond
  timer and the sends, the batches sent stay within 128 KiB and, received in order and with any
  receive timeouts in between, make the reader write to its TUN device exactly the packets the
  writer took off its queue, in order, without the empty and oversized ones; only what the writer
  still holds (nothing when it waits with no batch open) is missing at the end.\<close>

theorem relay_delivers_in_order:
  assumes "writeRelayLoop evs WaitFirst [] = Some (pc, sent)"
    and "list_all (\<lambda>p. int (length p) \<le> maxPacketBytes) (queued evs)"
    and "list_all (\<lambda>r. r \<noteq> RecvFailed) rs" "concat (map received rs) = sent"
  shows "\<exists>delivered held. readRelayLoop maxPacketBytes recording rs [] = (False, delivered) \<and>
           filter sendable (queued evs) = delivered @ held \<and> (pc = WaitFirst \<longrightarrow> held = []) \<and>
           list_all (\<lambda>b. length b \<le> tunBatchMaxBytes) sent"
proof -
  from writeRelayLoop_holds [OF assms(1), of "[]"] obtain out held where
    out: "sent = map tun_frame out" "list_all good_batch out" "holds pc held"
      "filter sendable (queued evs) = concat out @ held" by auto
  have "list_all (\<lambda>p. int (length p) \<le> maxPacketBytes) (concat out)"
  proof -
    have "set (concat out) \<subseteq> set (queued evs)"
      using out(4) by (metis filter_is_subset set_append sup.boundedE)
    with assms(2) show ?thesis by (auto simp: list_all_iff)
  qed
  then have valid: "list_all (\<lambda>ps. ps \<noteq> [] \<and> list_all (tun_valid maxPacketBytes) ps) out"
    using out(2) good_batch_valid [of _ maxPacketBytes] by (auto simp: list_all_iff good_batch_def)
  have "readRelayLoop maxPacketBytes recording rs [] = (False, concat out)"
    using readRelayLoop_frames [OF assms(3) _ valid, of "[]"] assms(4) out(1) by simp
  moreover have "list_all (\<lambda>b. length b \<le> tunBatchMaxBytes) sent"
    using out(1,2) by (auto simp: list_all_iff good_batch_def)
  ultimately show ?thesis using out(3,4) by (cases pc) auto
qed

text \<open>Two packets in one batch, then one alone, received with a timeout in between.\<close>

theorem relay_delivers_in_order_witness:
  "\<exists>delivered held. readRelayLoop 1400 recording
      [RecvFrame (tun_frame [[1, 2], [3]]), RecvTimeout, RecvFrame (tun_frame [[4]])] [] = (False, delivered) \<and>
      [[1, 2], [3], [4]] = delivered @ held \<and> held = []"
proof -
  have run: "writeRelayLoop
      [Got [1, 2], Got [3], TimerFired, SendResult (None :: nat option), Got [], Got [4], TimerFired, SendResult None]
      WaitFirst [] = Some (WaitFirst, [tun_frame [[1, 2], [3]], tun_frame [[4]]])"
    by (simp add: appendTunBatch_def tun_frame_def tun_item_def collect_loop_def tunBatchMaxBytes_def)
  show ?thesis
    using relay_delivers_in_order [OF run, of 1400
        "[RecvFrame (tun_frame [[1, 2], [3]]), RecvTimeout, RecvFrame (tun_frame [[4]])]"]
    by (auto simp: sendable_def)
qed

end
