(* ===== verification/StreamBatch.thy ===== *)
theory StreamBatch
  imports Framing
begin

text \<open>
  The stream batch format of internal/tun/stream.go: two magic bytes, then packets behind two byte
  big-endian lengths. The frame limit \<open>streamBatchMax\<close> is the SDK's \<open>DefaultStreamMaxFrame\<close>, a
  parameter \<open>streamBatchMax\<close> of the definitions; \<open>streamBatchWait\<close> is the constant 0, so the batch
  is filled by one drain of the send queue and the timed loop behind the test is dead code. The
  send queue is the list of the packets waiting in the channel, which the drain consumes.
\<close>

section \<open>The code\<close>

definition streamPacketMagic :: bytes where
  "streamPacketMagic = [0x54, 0x50]"

definition appendStreamPacket :: "nat \<Rightarrow> bytes \<Rightarrow> bytes \<Rightarrow> bytes \<times> bool" where
  "appendStreamPacket streamBatchMax batch packet =
     (if length packet > 0xffff \<or> length batch + 2 + length packet > streamBatchMax
      then (batch, False)
      else (batch @ putUint16 (of_nat (length packet)) @ packet, True))"

definition isStreamBatch :: "bytes \<Rightarrow> bool" where
  "isStreamBatch payload \<longleftrightarrow>
     length payload \<ge> length streamPacketMagic \<and>
     payload ! 0 = streamPacketMagic ! 0 \<and> payload ! 1 = streamPacketMagic ! 1"

text \<open>The drain: the batch, the overflow packet if one was refused, and what is left queued.\<close>

fun appendStreamLoop :: "nat \<Rightarrow> bytes \<Rightarrow> bytes list \<Rightarrow> bytes \<times> bytes option \<times> bytes list" where
  "appendStreamLoop mx batch [] = (batch, None, [])"
| "appendStreamLoop mx batch (packet # queue) =
     (let (batch', added) = appendStreamPacket mx batch packet
      in if \<not> added then (batch', Some packet, queue) else appendStreamLoop mx batch' queue)"

definition appendStreamBatch :: "nat \<Rightarrow> bytes \<Rightarrow> bytes list \<Rightarrow> bytes \<times> bytes option \<times> bytes list" where
  "appendStreamBatch mx batch queue =
     (if \<not> isStreamBatch batch then (batch, None, queue) else appendStreamLoop mx batch queue)"

definition encodeStreamBatch :: "nat \<Rightarrow> bytes \<Rightarrow> bytes list \<Rightarrow> bytes \<times> bytes option \<times> bytes list" where
  "encodeStreamBatch mx first queue =
     (let (batch, added) = appendStreamPacket mx streamPacketMagic first
      in if \<not> added then (first, None, queue) else appendStreamBatch mx batch queue)"

text \<open>The loop over \<open>payload[offset:]\<close>.\<close>

function decodeStreamLoop :: "bytes \<Rightarrow> bytes list \<Rightarrow> bytes list \<times> bool" where
  "decodeStreamLoop rest packets =
     (if rest = [] then (packets, length packets > 0)
      else if length rest < 2 then ([], False)
      else let len = unat (getUint16 (take 2 rest)); body = drop 2 rest
           in if len = 0 \<or> len > length body then ([], False)
              else decodeStreamLoop (drop len body) (packets @ [take len body]))"
  by pat_completeness auto
termination
  by (relation "measure (\<lambda>(rest, packets). length rest)") auto

declare decodeStreamLoop.simps [simp del]

definition decodeStreamBatch :: "bytes \<Rightarrow> bytes list \<times> bool" where
  "decodeStreamBatch payload =
     (if \<not> isStreamBatch payload then ([], False)
      else decodeStreamLoop (drop (length streamPacketMagic) payload) [])"

section \<open>The format as a parser\<close>

definition stream_valid :: "bytes \<Rightarrow> bool" where
  "stream_valid p \<longleftrightarrow> 0 < length p \<and> length p \<le> 0xffff"

definition stream_item :: "bytes \<Rightarrow> bytes" where
  "stream_item p = putUint16 (of_nat (length p)) @ p"

function stream_parse :: "bytes \<Rightarrow> bytes list option" where
  "stream_parse rest =
     (if rest = [] then Some []
      else if length rest < 2 then None
      else let len = unat (getUint16 (take 2 rest)); body = drop 2 rest
           in if len = 0 \<or> len > length body then None
              else map_option (Cons (take len body)) (stream_parse (drop len body)))"
  by pat_completeness auto
termination
  by (relation "measure length") auto

declare stream_parse.simps [simp del]

lemma stream_magic_length [simp]: "length streamPacketMagic = 2"
  by (simp add: streamPacketMagic_def)

lemma stream_magic_ne [simp]: "streamPacketMagic \<noteq> []"
  by (simp add: streamPacketMagic_def)

lemma isStreamBatch_magic [simp]: "isStreamBatch (streamPacketMagic @ rest)"
  by (simp add: isStreamBatch_def streamPacketMagic_def)

lemma isStreamBatch_iff: "isStreamBatch payload \<longleftrightarrow> (\<exists>rest. payload = streamPacketMagic @ rest)"
proof
  assume a: "isStreamBatch payload"
  then have "2 \<le> length payload" by (simp add: isStreamBatch_def)
  then obtain x y rest where p: "payload = x # y # rest"
    by (metis One_nat_def Suc_1 Suc_le_length_iff)
  with a show "\<exists>rest. payload = streamPacketMagic @ rest"
    by (intro exI [of _ rest]) (simp add: isStreamBatch_def streamPacketMagic_def)
qed auto

lemma stream_item_length [simp]: "length (stream_item p) = 2 + length p"
  by (simp add: stream_item_def)

lemma stream_item_take: "take 2 (stream_item p) = putUint16 (of_nat (length p))"
  by (simp add: stream_item_def)

lemma stream_item_drop [simp]: "drop 2 (stream_item p) = p"
  by (simp add: stream_item_def)

lemma stream_item_nonempty [simp]: "stream_item p \<noteq> []"
  by (simp add: stream_item_def putUint16_def)

lemma getUint16_put' [simp]: "getUint16 (putUint16 v) = v"
  using getUint16_put [of v "[]"] by simp

lemma stream_item_get: "length p \<le> 0xffff \<Longrightarrow> unat (getUint16 (take 2 (stream_item p))) = length p"
  by (simp add: stream_item_take unat_of_nat_u16)

lemma stream_parse_item:
  "stream_valid p \<Longrightarrow> stream_parse (stream_item p @ rest) = map_option (Cons p) (stream_parse rest)"
  by (subst stream_parse.simps) (simp add: Let_def stream_item_get stream_valid_def)

lemma stream_item_rebuild:
  assumes "2 \<le> length rest" "unat (getUint16 (take 2 rest)) = len" "len \<le> length (drop 2 rest)"
  shows "stream_item (take len (drop 2 rest)) @ drop len (drop 2 rest) = rest"
proof -
  have "of_nat (length (take len (drop 2 rest))) = getUint16 (take 2 rest)"
    using assms by (simp add: min_def flip: assms(2))
  then have "stream_item (take len (drop 2 rest)) = take 2 rest @ take len (drop 2 rest)"
    using assms(1) by (simp add: stream_item_def putUint16_get)
  then show ?thesis by (simp only: append_assoc append_take_drop_id)
qed

lemma stream_valid_take:
  assumes "\<not> (unat (w :: u16) = 0 \<or> unat w > length body)"
  shows "stream_valid (take (unat w) body)"
proof -
  have "unat w < 65536" using unsigned_less [of w] by simp
  with assms show ?thesis by (auto simp: stream_valid_def min_def)
qed

lemma stream_parse_sound:
  "stream_parse body = Some ps \<Longrightarrow> body = concat (map stream_item ps) \<and> list_all stream_valid ps"
proof (induction body arbitrary: ps rule: stream_parse.induct)
  case (1 rest)
  show ?case
  proof (cases "rest = []")
    case True
    with 1(2) show ?thesis by (simp add: stream_parse.simps)
  next
    case ne: False
    let ?len = "unat (getUint16 (take 2 rest))" and ?body = "drop 2 rest"
    from 1(2) ne have two: "\<not> length rest < 2"
      by (subst (asm) stream_parse.simps) (auto split: if_splits)
    from 1(2) ne two have ok: "\<not> (?len = 0 \<or> ?len > length ?body)"
      by (subst (asm) stream_parse.simps) (auto simp: Let_def split: if_splits)
    with 1(2) ne two obtain ps' where ps: "ps = take ?len ?body # ps'"
      and rec: "stream_parse (drop ?len ?body) = Some ps'"
      by (subst (asm) stream_parse.simps) (auto simp: Let_def)
    have "rest = stream_item (take ?len ?body) @ drop ?len ?body"
      by (rule sym [OF stream_item_rebuild]) (use two ok in auto)
    with 1(1) [OF ne two refl refl ok rec] stream_valid_take [OF ok] ps show ?thesis
      by (metis concat.simps(2) list.simps(9) list.pred_inject(2))
  qed
qed

interpretation strm: framing "appendStreamPacket mx" stream_item stream_parse stream_valid mx for mx
proof
  fix b p b' assume "b \<noteq> []" "appendStreamPacket mx b p = (b', True)"
  then show "b' = b @ stream_item p \<and> length b' \<le> mx"
    by (auto simp: appendStreamPacket_def stream_item_def split: if_splits)
next
  fix b p b' assume "b \<noteq> []" "appendStreamPacket mx b p = (b', False)"
  then show "b' = b" by (auto simp: appendStreamPacket_def split: if_splits)
next
  fix b p b' assume "b \<noteq> []" "appendStreamPacket mx b p = (b', False)" "0 < length p" "length p \<le> 65535"
  then show "mx < length b + length (stream_item p)"
    by (auto simp: appendStreamPacket_def split: if_splits)
next
  show "stream_parse [] = Some []" by (simp add: stream_parse.simps)
qed (simp_all add: stream_parse_item stream_parse_sound)

section \<open>The code against the format\<close>

lemma appendStreamLoop_fill:
  "appendStreamLoop mx b q =
     (let (b', taken, left) = fill (appendStreamPacket mx) b q
      in (b', if left = [] then None else Some (hd left), tl left))"
  by (induction mx b q rule: appendStreamLoop.induct) (auto split: prod.splits)

lemma decodeStreamLoop_parse:
  "decodeStreamLoop rest acc =
     (case stream_parse rest of
        None \<Rightarrow> ([], False)
      | Some ps \<Rightarrow> (acc @ ps, acc @ ps \<noteq> []))"
proof (induction rest acc rule: decodeStreamLoop.induct)
  case (1 rest acc)
  show ?case
  proof (cases "rest = [] \<or> length rest < 2")
    case True
    then show ?thesis
      by (auto simp: decodeStreamLoop.simps [of rest] stream_parse.simps [of rest])
  next
    case False
    let ?len = "unat (getUint16 (take 2 rest))" and ?body = "drop 2 rest"
    show ?thesis
    proof (cases "?len = 0 \<or> ?len > length ?body")
      case True
      with False show ?thesis
        by (simp add: decodeStreamLoop.simps [of rest] stream_parse.simps [of rest] Let_def)
    next
      case ok: False
      have f: "rest \<noteq> []" "\<not> length rest < 2" using False by auto
      from "1.IH" [OF f refl refl ok] f ok show ?thesis
        by (auto simp: decodeStreamLoop.simps [of rest] stream_parse.simps [of rest] Let_def
            simp del: drop_drop split: option.splits)
    qed
  qed
qed

lemma decodeStreamBatch_parse:
  "decodeStreamBatch (streamPacketMagic @ body) =
     (case stream_parse body of None \<Rightarrow> ([], False) | Some ps \<Rightarrow> (ps, ps \<noteq> []))"
  by (simp add: decodeStreamBatch_def decodeStreamLoop_parse split: option.splits)

lemma decodeStreamBatch_iff:
  "(decodeStreamBatch payload = (ps, True)) =
     (ps \<noteq> [] \<and> list_all stream_valid ps \<and> payload = streamPacketMagic @ concat (map stream_item ps)) \<and>
   (decodeStreamBatch payload = (ps, False)) =
     (ps = [] \<and> \<not> snd (decodeStreamBatch payload))"
proof (cases "isStreamBatch payload")
  case True
  then obtain body where p: "payload = streamPacketMagic @ body" using isStreamBatch_iff by blast
  have "(stream_parse body = Some ps) = (list_all stream_valid ps \<and> body = concat (map stream_item ps))"
    using stream_parse_sound [of body ps] strm.parse_items [of ps] by auto
  then show ?thesis
    by (cases "stream_parse body") (auto simp: p decodeStreamBatch_parse)
next
  case False
  then show ?thesis by (auto simp: decodeStreamBatch_def)
qed

text \<open>C15. The stream decoder accepts exactly the batches the encoder can build, a non-empty
  sequence of packets of 1 to 65535 bytes behind the magic, and gives back their packets; any
  other payload is refused as a whole, with no packet of it delivered as part of a batch.\<close>

theorem decodeStreamBatch_exact:
  "(decodeStreamBatch payload = (ps, True)) =
     (ps \<noteq> [] \<and> list_all stream_valid ps \<and> payload = streamPacketMagic @ concat (map stream_item ps)) \<and>
   (decodeStreamBatch payload = (ps, False)) =
     (ps = [] \<and> \<not> snd (decodeStreamBatch payload))"
  by (rule decodeStreamBatch_iff)

lemma encodeStreamBatch_packs:
  assumes "list_all stream_valid (first # queue)" and "4 + length first \<le> streamBatchMax"
    and "encodeStreamBatch streamBatchMax first queue = (batch, overflow, left)"
  shows "\<exists>taken. decodeStreamBatch batch = (first # taken, True) \<and>
           queue = taken @ (case overflow of None \<Rightarrow> left | Some p \<Rightarrow> p # left) \<and>
           length batch \<le> streamBatchMax \<and>
           (case overflow of None \<Rightarrow> left = []
            | Some p \<Rightarrow> streamBatchMax < length batch + 2 + length p)"
proof -
  let ?b = "streamPacketMagic @ stream_item first"
  have v: "stream_valid first" "list_all stream_valid queue" using assms(1) by auto
  have put: "appendStreamPacket streamBatchMax streamPacketMagic first = (?b, True)"
    using v(1) assms(2) by (simp add: appendStreamPacket_def stream_item_def stream_valid_def)
  obtain b' taken rest where f: "fill (appendStreamPacket streamBatchMax) ?b queue = (b', taken, rest)"
    by (cases "fill (appendStreamPacket streamBatchMax) ?b queue") auto
  have res: "batch = b'" "overflow = (if rest = [] then None else Some (hd rest))" "left = tl rest"
    using assms(3) f by (auto simp: encodeStreamBatch_def put appendStreamBatch_def appendStreamLoop_fill)
  have ne: "?b \<noteq> []" by simp
  have split: "queue = taken @ rest" by (rule fill_split [OF f])
  have b': "b' = streamPacketMagic @ concat (map stream_item (first # taken))"
    using strm.fill_content [OF ne f] by simp
  have "list_all stream_valid (first # taken)" using v split by simp
  then have "stream_parse (concat (map stream_item (first # taken))) = Some (first # taken)"
    by (rule strm.parse_items)
  then have dec: "decodeStreamBatch batch = (first # taken, True)"
    by (simp add: res(1) b' decodeStreamBatch_parse)
  have lim: "length batch \<le> streamBatchMax"
    using strm.fill_limit [OF ne _ f] assms(2) res(1) by simp
  have max: "streamBatchMax < length batch + 2 + length p" if "rest = p # ps" for p ps
  proof -
    have "stream_valid p" using v(2) split that by simp
    then show ?thesis
      using strm.fill_maximal [OF ne f [unfolded that]] by (simp add: res(1) stream_valid_def)
  qed
  show ?thesis
    by (rule exI [of _ taken], cases rest) (use dec split lim max res in auto)
qed

text \<open>Absorbing more of the queue into a batch that was not sent yet.\<close>

lemma appendStreamBatch_packs:
  assumes "decodeStreamBatch payload = (ps, True)" "list_all stream_valid queue" "length payload \<le> mx"
    and "appendStreamBatch mx payload queue = (batch, overflow, left)"
  shows "\<exists>taken. decodeStreamBatch batch = (ps @ taken, True) \<and>
           queue = taken @ (case overflow of None \<Rightarrow> left | Some p \<Rightarrow> p # left) \<and> length batch \<le> mx"
proof -
  from assms(1) have p: "ps \<noteq> []" "list_all stream_valid ps" "payload = streamPacketMagic @ concat (map stream_item ps)"
    using decodeStreamBatch_iff [of payload ps] by auto
  obtain b' taken rest where f: "fill (appendStreamPacket mx) payload queue = (b', taken, rest)"
    by (cases "fill (appendStreamPacket mx) payload queue") auto
  have res: "batch = b'" "overflow = (if rest = [] then None else Some (hd rest))" "left = tl rest"
    using assms(4) f p(3) by (auto simp: appendStreamBatch_def appendStreamLoop_fill)
  have ne: "payload \<noteq> []" using p(3) by simp
  have split: "queue = taken @ rest" by (rule fill_split [OF f])
  have "b' = streamPacketMagic @ concat (map stream_item (ps @ taken))"
    using strm.fill_content [OF ne f] p(3) by simp
  moreover have "list_all stream_valid (ps @ taken)" using p(2) assms(2) split by simp
  ultimately have "decodeStreamBatch batch = (ps @ taken, True)"
    using decodeStreamBatch_iff [of batch "ps @ taken"] p(1) res(1) by simp
  moreover have "length batch \<le> mx" using strm.fill_limit [OF ne assms(3) f] res(1) by simp
  ultimately show ?thesis using res split by (cases rest) auto
qed

text \<open>C14. A stream batch built from a first packet and the send queue carries, in order, the first
  packet and the longest run of queued packets that the frame limit allows; the packet that did
  not fit is handed back as the overflow and everything behind it stays queued, so nothing is
  lost, duplicated or reordered; and the receiver's decoder gives back exactly those packets.\<close>

theorem encodeStreamBatch_roundtrip:
  assumes "list_all stream_valid (first # queue)" and "4 + length first \<le> streamBatchMax"
    and "encodeStreamBatch streamBatchMax first queue = (batch, overflow, left)"
  shows "\<exists>taken. decodeStreamBatch batch = (first # taken, True) \<and>
           queue = taken @ (case overflow of None \<Rightarrow> left | Some p \<Rightarrow> p # left) \<and>
           length batch \<le> streamBatchMax \<and>
           (case overflow of None \<Rightarrow> left = []
            | Some p \<Rightarrow> streamBatchMax < length batch + 2 + length p)"
  by (rule encodeStreamBatch_packs [OF assms])

theorem encodeStreamBatch_roundtrip_witness:
  "\<exists>taken. decodeStreamBatch (fst (encodeStreamBatch 12 [1, 2] [[3], [4, 5], [6]])) = ([1, 2] # taken, True)"
proof -
  have e: "encodeStreamBatch 12 [1, 2] [[3], [4, 5], [6]] =
      ([0x54, 0x50, 0, 2, 1, 2, 0, 1, 3], Some [4, 5], [[6]])"
    by (simp add: encodeStreamBatch_def appendStreamBatch_def appendStreamPacket_def isStreamBatch_def
        streamPacketMagic_def putUint16_def drop_bit_eq_div)
  show ?thesis
    using encodeStreamBatch_roundtrip [of "[1, 2]" "[[3], [4, 5], [6]]" 12, OF _ _ e]
    by (auto simp: e stream_valid_def)
qed

end
