(* ===== verification/StreamPort.thy ===== *)
theory StreamPort
  imports StreamBatch Config
begin

text \<open>
  The outbound end of a stream, \<open>streamPort\<close> of internal/tun/stream.go: its send queue, the state
  of its path (target session, epoch, whether it is ready), the progress of acknowledgements and
  the channels its goroutines wait on. Every operation is one critical section under \<open>pathMu\<close>, so
  concurrent goroutines are an interleaving of them. \<open>turntf.StreamSenderState\<close> is a parameter:
  a state \<open>'ss\<close> and three methods on it.
\<close>

section \<open>Frames, errors and the SDK's sender\<close>

type_synonym stream_id = string

datatype frame_kind = KOpen | KOpenAck | KData | KAck | KResume | KClose | KOther

record stream_frame =
  fr_Kind :: frame_kind
  fr_ID :: stream_id
  fr_Epoch :: u64
  fr_Offset :: u64
  fr_Window :: u64
  fr_Payload :: bytes

definition zero_frame :: stream_frame where
  "zero_frame = \<lparr>fr_Kind = KOther, fr_ID = '''', fr_Epoch = 0, fr_Offset = 0, fr_Window = 0, fr_Payload = []\<rparr>"

datatype stream_error = ErrStreamWindowFull | ErrStreamAckStalled | StreamError string

record 'ss sender_sdk =
  sender_Data :: "'ss \<Rightarrow> bytes \<Rightarrow> (stream_frame \<times> stream_error option) \<times> 'ss"
  sender_Acknowledge :: "'ss \<Rightarrow> u64 \<Rightarrow> u64 \<Rightarrow> u64 \<Rightarrow> stream_error option \<times> 'ss"
  sender_Resume :: "'ss \<Rightarrow> u64 \<Rightarrow> u64 \<Rightarrow> (stream_frame list \<times> stream_error option) \<times> 'ss"

definition zero_session :: session_ref where
  "zero_session = SessionRef 0 ''''"

section \<open>The port\<close>

text \<open>
  A channel that is made anew (\<open>ready\<close>, \<open>attemptErr\<close>, \<open>resumeReady\<close>) is a number, so that a
  goroutine that still holds an old one can be told from one that holds the current one;
  \<open>sp_fresh\<close> is the next number, \<open>sp_closed\<close> the closed channels, \<open>sp_errs\<close> and \<open>sp_tokens\<close> the
  buffers. \<open>lost\<close> and \<open>wake\<close> hold at most one token, \<open>done\<close> and \<open>restart\<close> are closed once.
  \<open>sp_panicked\<close> records the panic of closing a closed channel.
\<close>

record 'ss stream_port =
  sp_peer :: user_ref
  sp_targetSession :: session_ref
  sp_id :: stream_id
  sp_sender :: 'ss
  sp_queue :: "bytes list"
  sp_slots :: nat
  sp_ready :: nat
  sp_readyState :: bool
  sp_lost :: bool
  sp_wake :: bool
  sp_resumeReady :: "nat option"
  sp_epoch :: u64
  sp_lastAck :: u64
  sp_lastWindow :: u64
  sp_lastSent :: u64
  sp_attemptErr :: nat
  sp_cancelled :: bool
  sp_done :: bool
  sp_restart :: bool
  sp_once :: bool
  sp_restartOnce :: bool
  sp_fresh :: nat
  sp_closed :: "nat set"
  sp_errs :: "nat \<Rightarrow> stream_error list"
  sp_tokens :: "nat \<Rightarrow> nat"
  sp_panicked :: bool

text \<open>The literal of \<open>runStream\<close>.\<close>

definition new_port :: "user_ref \<Rightarrow> stream_id \<Rightarrow> 'ss \<Rightarrow> nat \<Rightarrow> 'ss stream_port" where
  "new_port target sid sender sendQueueSize =
     \<lparr>sp_peer = target, sp_targetSession = zero_session, sp_id = sid, sp_sender = sender,
      sp_queue = [], sp_slots = sendQueueSize, sp_ready = 0, sp_readyState = False, sp_lost = False,
      sp_wake = False, sp_resumeReady = None, sp_epoch = 1, sp_lastAck = 0, sp_lastWindow = 0,
      sp_lastSent = 0, sp_attemptErr = 1, sp_cancelled = False, sp_done = False, sp_restart = False,
      sp_once = False, sp_restartOnce = False, sp_fresh = 2, sp_closed = {}, sp_errs = (\<lambda>_. []),
      sp_tokens = (\<lambda>_. 0), sp_panicked = False\<rparr>"

section \<open>Channel operations\<close>

definition close_chan :: "nat \<Rightarrow> 'ss stream_port \<Rightarrow> 'ss stream_port" where
  "close_chan c p = (if c \<in> sp_closed p then p\<lparr>sp_panicked := True\<rparr> else p\<lparr>sp_closed := insert c (sp_closed p)\<rparr>)"

definition remake_ready :: "'ss stream_port \<Rightarrow> 'ss stream_port" where
  "remake_ready p = p\<lparr>sp_ready := sp_fresh p, sp_fresh := Suc (sp_fresh p)\<rparr>"

definition remake_attemptErr :: "'ss stream_port \<Rightarrow> 'ss stream_port" where
  "remake_attemptErr p = p\<lparr>sp_attemptErr := sp_fresh p, sp_fresh := Suc (sp_fresh p)\<rparr>"

definition remake_resumeReady :: "'ss stream_port \<Rightarrow> 'ss stream_port" where
  "remake_resumeReady p = p\<lparr>sp_resumeReady := Some (sp_fresh p), sp_fresh := Suc (sp_fresh p)\<rparr>"

text \<open>\<open>select { case p.attemptErr <- err: default: }\<close>, with one slot.\<close>

definition offer_err :: "stream_error \<Rightarrow> 'ss stream_port \<Rightarrow> 'ss stream_port" where
  "offer_err err p =
     p\<lparr>sp_errs := (sp_errs p)(sp_attemptErr p := fst (chan_offer 1 (sp_errs p (sp_attemptErr p)) err))\<rparr>"

section \<open>The operations\<close>

definition sp_enqueue :: "'ss stream_port \<Rightarrow> bytes \<Rightarrow> 'ss stream_port \<times> bool" where
  "sp_enqueue p packet =
     (let (q, sent) = chan_offer (sp_slots p) (sp_queue p) packet in (p\<lparr>sp_queue := q\<rparr>, sent))"

interpretation sq: bounded_queue sp_enqueue sp_queue sp_slots
  by unfold_locales (auto simp: sp_enqueue_def chan_offer_def)

definition enqueueReady :: "'ss stream_port \<Rightarrow> bytes \<Rightarrow> 'ss stream_port \<times> bool" where
  "enqueueReady p packet = (if \<not> sp_readyState p then (p, False) else sp_enqueue p packet)"

definition dataForReadyPath ::
    "'ss sender_sdk \<Rightarrow> bytes \<Rightarrow> 'ss stream_port \<Rightarrow>
     'ss stream_port \<times> (session_ref \<times> stream_frame \<times> stream_error option) option" where
  "dataForReadyPath sdk payload p =
     (if \<not> sp_readyState p then (p, None)
      else let ((frame, err), ss) = sender_Data sdk (sp_sender p) payload;
               p = p\<lparr>sp_sender := ss\<rparr>;
               p = (if err = None then p\<lparr>sp_lastSent := fr_Offset frame + of_nat (length (fr_Payload frame))\<rparr> else p)
           in (p, Some (sp_targetSession p, frame, err)))"

definition outstandingAckProgress :: "'ss stream_port \<Rightarrow> session_ref \<times> u64 \<times> u64 \<times> u64 \<times> bool" where
  "outstandingAckProgress p =
     (sp_targetSession p, sp_epoch p, sp_lastAck p, sp_lastWindow p,
      sp_readyState p \<and> sp_lastSent p > sp_lastAck p)"

definition ackProgress :: "session_ref \<Rightarrow> 'ss stream_port \<Rightarrow> (u64 \<times> u64 \<times> u64) option" where
  "ackProgress session p =
     (if \<not> sp_readyState p \<or> sp_targetSession p \<noteq> session then None
      else Some (sp_epoch p, sp_lastAck p, sp_lastWindow p))"

text \<open>The two results are the channels the caller waits on.\<close>

definition beginOpen :: "session_ref \<Rightarrow> 'ss stream_port \<Rightarrow> 'ss stream_port \<times> nat \<times> nat" where
  "beginOpen session p =
     (let p = p\<lparr>sp_targetSession := session, sp_readyState := False\<rparr>;
          p = remake_ready p;
          p = p\<lparr>sp_resumeReady := None\<rparr>;
          p = remake_attemptErr p
      in (p, sp_ready p, sp_attemptErr p))"

definition acceptOpenAck :: "session_ref \<Rightarrow> u64 \<Rightarrow> 'ss stream_port \<Rightarrow> 'ss stream_port \<times> bool" where
  "acceptOpenAck session epoch p =
     (if sp_targetSession p \<noteq> session \<or> sp_epoch p \<noteq> epoch \<or> sp_readyState p then (p, False)
      else (close_chan (sp_ready p) (p\<lparr>sp_readyState := True\<rparr>), True))"

definition wakeWriter :: "'ss stream_port \<Rightarrow> 'ss stream_port" where
  "wakeWriter p = p\<lparr>sp_wake := True\<rparr>"

definition signalPathLost :: "'ss stream_port \<Rightarrow> 'ss stream_port" where
  "signalPathLost p = wakeWriter (p\<lparr>sp_lost := True\<rparr>)"

text \<open>
  What \<open>failPath\<close>, \<open>failPathIfAckUnchanged\<close> and \<open>markPathLostWithError\<close> share once their guard has
  passed: on a path that is being opened or resumed the error goes to that attempt, on a ready
  path the path is lost.
\<close>

definition lose_path :: "stream_error option \<Rightarrow> 'ss stream_port \<Rightarrow> 'ss stream_port" where
  "lose_path err p =
     (if \<not> sp_readyState p then (case err of None \<Rightarrow> p | Some e \<Rightarrow> offer_err e p)
      else signalPathLost (remake_ready (p\<lparr>sp_readyState := False\<rparr>)))"

definition failPath :: "session_ref \<Rightarrow> u64 \<Rightarrow> stream_error \<Rightarrow> 'ss stream_port \<Rightarrow> 'ss stream_port \<times> bool" where
  "failPath session epoch err p =
     (if sp_targetSession p \<noteq> session \<or> sp_epoch p \<noteq> epoch then (p, False)
      else (lose_path (Some err) p, True))"

definition failPathIfAckUnchanged ::
    "session_ref \<Rightarrow> u64 \<Rightarrow> u64 \<Rightarrow> u64 \<Rightarrow> stream_error \<Rightarrow> 'ss stream_port \<Rightarrow> 'ss stream_port \<times> bool" where
  "failPathIfAckUnchanged session epoch expectedAck expectedWindow err p =
     (if sp_targetSession p \<noteq> session \<or> sp_epoch p \<noteq> epoch \<or> sp_lastAck p \<noteq> expectedAck \<or>
         sp_lastWindow p \<noteq> expectedWindow
      then (p, False) else (lose_path (Some err) p, True))"

definition markPathLostWithError :: "stream_error option \<Rightarrow> 'ss stream_port \<Rightarrow> 'ss stream_port" where
  "markPathLostWithError err p = lose_path err p"

definition markPathLost :: "'ss stream_port \<Rightarrow> 'ss stream_port" where
  "markPathLost p = markPathLostWithError None p"

definition beginResume ::
    "session_ref \<Rightarrow> u64 \<Rightarrow> 'ss stream_port \<Rightarrow> 'ss stream_port \<times> u64 \<times> nat \<times> nat" where
  "beginResume session epoch p =
     (let p = p\<lparr>sp_targetSession := session, sp_epoch := epoch\<rparr>;
          p = (if sp_readyState p then remake_ready (p\<lparr>sp_readyState := False\<rparr>) else p);
          p = remake_resumeReady p;
          p = remake_attemptErr p
      in (p, sp_lastAck p, the (sp_resumeReady p), sp_attemptErr p))"

definition currentPath :: "'ss stream_port \<Rightarrow> session_ref \<times> nat" where
  "currentPath p = (sp_targetSession p, sp_ready p)"

definition nextEpoch :: "'ss stream_port \<Rightarrow> u64" where
  "nextEpoch p = sp_epoch p + 1"

definition isReady :: "nat \<Rightarrow> 'ss stream_port \<Rightarrow> bool" where
  "isReady channel p \<longleftrightarrow> sp_readyState p \<and> sp_ready p = channel"

definition acknowledge :: "'ss sender_sdk \<Rightarrow> session_ref \<Rightarrow> stream_frame \<Rightarrow> 'ss stream_port \<Rightarrow> 'ss stream_port" where
  "acknowledge sdk session frame p =
     (if session \<noteq> sp_targetSession p \<or> fr_Epoch frame \<noteq> sp_epoch p then p
      else let (err, ss) = sender_Acknowledge sdk (sp_sender p) (fr_Epoch frame) (fr_Offset frame) (fr_Window frame);
               p = p\<lparr>sp_sender := ss\<rparr>
           in if err \<noteq> None then p
              else let p = (if fr_Offset frame > sp_lastAck p then p\<lparr>sp_lastAck := fr_Offset frame\<rparr> else p);
                       p = (if fr_Window frame > 0 then p\<lparr>sp_lastWindow := fr_Window frame\<rparr> else p);
                       p = wakeWriter p
                   in (case sp_resumeReady p of
                         None \<Rightarrow> p
                       | Some c \<Rightarrow> p\<lparr>sp_tokens := (sp_tokens p)(c := min 1 (Suc (sp_tokens p c))),
                                     sp_resumeReady := None\<rparr>))"

definition completeResume :: "session_ref \<Rightarrow> u64 \<Rightarrow> 'ss stream_port \<Rightarrow> 'ss stream_port \<times> bool" where
  "completeResume session epoch p =
     (if sp_targetSession p \<noteq> session \<or> sp_epoch p \<noteq> epoch \<or> sp_readyState p \<or> sp_resumeReady p \<noteq> None
      then (p, False)
      else case sp_errs p (sp_attemptErr p) of
             e # es \<Rightarrow> (p\<lparr>sp_errs := (sp_errs p)(sp_attemptErr p := es)\<rparr>, False)
           | [] \<Rightarrow> (close_chan (sp_ready p) (p\<lparr>sp_readyState := True\<rparr>), True))"

definition sp_close :: "'ss stream_port \<Rightarrow> 'ss stream_port" where
  "sp_close p =
     (if sp_once p then p
      else let p = p\<lparr>sp_once := True, sp_cancelled := True\<rparr>
           in if sp_done p then p\<lparr>sp_panicked := True\<rparr> else p\<lparr>sp_done := True\<rparr>)"

definition requestRestart :: "session_ref \<Rightarrow> 'ss stream_port \<Rightarrow> 'ss stream_port \<times> bool" where
  "requestRestart session p =
     (if sp_targetSession p = session then (p, False)
      else if sp_restartOnce p then (p, False)
      else let p = p\<lparr>sp_restartOnce := True\<rparr>;
               p = (if sp_restart p then p\<lparr>sp_panicked := True\<rparr> else p\<lparr>sp_restart := True\<rparr>)
           in (sp_close p, True))"

definition restartRequested :: "'ss stream_port \<Rightarrow> bool" where
  "restartRequested p = sp_restart p"

lemmas port_op_defs = close_chan_def remake_ready_def remake_attemptErr_def remake_resumeReady_def
  offer_err_def wakeWriter_def signalPathLost_def lose_path_def chan_offer_def Let_def

declare sp_enqueue_def [port_defs] enqueueReady_def [port_defs] dataForReadyPath_def [port_defs]
  beginOpen_def [port_defs] acceptOpenAck_def [port_defs] failPath_def [port_defs]
  failPathIfAckUnchanged_def [port_defs] markPathLostWithError_def [port_defs]
  beginResume_def [port_defs] acknowledge_def [port_defs] completeResume_def [port_defs]
  sp_close_def [port_defs] requestRestart_def [port_defs]

section \<open>Interleavings\<close>

text \<open>
  Everything a goroutine of the program does to a port: the operations above, with any argument
  (frames and send results arrive from the network in any order, duplicated or late), and the
  receptions from its channels. \<open>recoverStream\<close> takes the epoch of a Resume from \<open>nextEpoch\<close> and
  is the only one that changes it, so the two calls are one event.
\<close>

datatype port_event =
    EvEnqueue bytes
  | EvDequeue
  | EvData bytes
  | EvBeginOpen session_ref
  | EvOpenAck session_ref u64
  | EvFail session_ref u64 stream_error
  | EvFailIf session_ref u64 u64 u64 stream_error
  | EvLost "stream_error option"
  | EvBeginResume session_ref
  | EvSenderResume u64 u64
  | EvAck session_ref stream_frame
  | EvCompleteResume session_ref u64
  | EvRestart session_ref
  | EvClose
  | EvTakeLost
  | EvTakeWake
  | EvTakeErr nat
  | EvTakeResumeReady nat

fun port_do :: "'ss sender_sdk \<Rightarrow> port_event \<Rightarrow> 'ss stream_port \<Rightarrow> 'ss stream_port" where
  "port_do sdk (EvEnqueue packet) p = fst (enqueueReady p packet)"
| "port_do sdk EvDequeue p = p\<lparr>sp_queue := tl (sp_queue p)\<rparr>"
| "port_do sdk (EvData payload) p = fst (dataForReadyPath sdk payload p)"
| "port_do sdk (EvBeginOpen session) p = fst (beginOpen session p)"
| "port_do sdk (EvOpenAck session epoch) p = fst (acceptOpenAck session epoch p)"
| "port_do sdk (EvFail session epoch err) p = fst (failPath session epoch err p)"
| "port_do sdk (EvFailIf session epoch ack window err) p =
     fst (failPathIfAckUnchanged session epoch ack window err p)"
| "port_do sdk (EvLost err) p = markPathLostWithError err p"
| "port_do sdk (EvBeginResume session) p = fst (beginResume session (nextEpoch p) p)"
| "port_do sdk (EvSenderResume epoch lastAck) p =
     p\<lparr>sp_sender := snd (sender_Resume sdk (sp_sender p) epoch lastAck)\<rparr>"
| "port_do sdk (EvAck session frame) p = acknowledge sdk session frame p"
| "port_do sdk (EvCompleteResume session epoch) p = fst (completeResume session epoch p)"
| "port_do sdk (EvRestart session) p = fst (requestRestart session p)"
| "port_do sdk EvClose p = sp_close p"
| "port_do sdk EvTakeLost p = p\<lparr>sp_lost := False\<rparr>"
| "port_do sdk EvTakeWake p = p\<lparr>sp_wake := False\<rparr>"
| "port_do sdk (EvTakeErr c) p = p\<lparr>sp_errs := (sp_errs p)(c := tl (sp_errs p c))\<rparr>"
| "port_do sdk (EvTakeResumeReady c) p = p\<lparr>sp_tokens := (sp_tokens p)(c := sp_tokens p c - 1)\<rparr>"

abbreviation port_run :: "'ss sender_sdk \<Rightarrow> port_event list \<Rightarrow> 'ss stream_port \<Rightarrow> 'ss stream_port" where
  "port_run sdk \<equiv> fold (port_do sdk)"

inductive port_step :: "'ss sender_sdk \<Rightarrow> 'ss stream_port \<Rightarrow> 'ss stream_port \<Rightarrow> bool" for sdk where
  port_event: "port_step sdk p (port_do sdk ev p)"

inductive_cases port_stepE: "port_step sdk p q"

lemma port_run_steps: "(port_step sdk)\<^sup>*\<^sup>* p (port_run sdk evs p)"
  by (induction evs arbitrary: p) (auto intro: converse_rtranclp_into_rtranclp port_event)

section \<open>The invariant of a port\<close>

definition port_inv :: "'ss stream_port \<Rightarrow> bool" where
  "port_inv p \<longleftrightarrow>
     sp_ready p < sp_fresh p \<and> sp_attemptErr p < sp_fresh p \<and>
     (\<forall>c. sp_resumeReady p = Some c \<longrightarrow> c < sp_fresh p \<and> sp_tokens p c = 0) \<and>
     (\<forall>c \<in> sp_closed p. c < sp_fresh p) \<and>
     (\<forall>c. sp_fresh p \<le> c \<longrightarrow> sp_errs p c = [] \<and> sp_tokens p c = 0) \<and>
     (\<forall>c. length (sp_errs p c) \<le> 1) \<and> (\<forall>c. sp_tokens p c \<le> 1) \<and>
     (sp_readyState p \<longleftrightarrow> sp_ready p \<in> sp_closed p) \<and>
     \<not> sp_panicked p \<and> sp_once p = sp_done p \<and> sp_restartOnce p = sp_restart p \<and>
     (sp_restart p \<longrightarrow> sp_done p) \<and> length (sp_queue p) \<le> sp_slots p"

lemma port_inv_new: "port_inv (new_port target sid sender n)"
  by (simp add: port_inv_def new_port_def)

lemma port_inv_ops:
  assumes "port_inv p"
  shows "port_inv (fst (enqueueReady p packet))" "port_inv (fst (dataForReadyPath sdk payload p))"
    "port_inv (fst (beginOpen session p))" "port_inv (fst (acceptOpenAck session epoch p))"
  using assms
  by (auto simp: port_inv_def port_defs port_op_defs split: prod.splits)

lemma port_inv_lose: "port_inv p \<Longrightarrow> port_inv (lose_path err p)"
  by (auto simp: port_inv_def port_op_defs split: option.splits)

lemma port_inv_fail:
  assumes "port_inv p"
  shows "port_inv (fst (failPath session epoch e p))" "port_inv (fst (failPathIfAckUnchanged session epoch a w e p))"
    "port_inv (markPathLostWithError err p)"
  using port_inv_lose [OF assms] assms
  by (simp_all add: failPath_def failPathIfAckUnchanged_def markPathLostWithError_def)

lemma port_inv_resume: "port_inv p \<Longrightarrow> port_inv (fst (beginResume session epoch p))"
  by (auto simp: port_inv_def port_defs port_op_defs)

lemma port_inv_ack: "port_inv p \<Longrightarrow> port_inv (acknowledge sdk session frame p)"
  by (auto simp: port_inv_def port_defs port_op_defs split: prod.splits option.splits)

lemma port_inv_errs: "port_inv p \<Longrightarrow> sp_errs p c = e # es \<Longrightarrow> es = []"
  unfolding port_inv_def by (metis One_nat_def Suc_le_mono le_zero_eq length_0_conv list.size(4) Suc_eq_plus1)

lemma port_inv_complete:
  assumes "port_inv p" shows "port_inv (fst (completeResume session epoch p))"
  using assms port_inv_errs [OF assms, of "sp_attemptErr p"]
  by (auto simp: port_inv_def port_defs port_op_defs split: list.splits)

lemma port_inv_restart:
  assumes "port_inv p" shows "port_inv (fst (requestRestart session p))" "port_inv (sp_close p)"
  using assms by (auto simp: port_inv_def port_defs port_op_defs)

lemma port_inv_do: "port_inv p \<Longrightarrow> port_inv (port_do sdk ev p)"
  by (cases ev)
     (simp_all add: port_inv_ops port_inv_fail port_inv_resume port_inv_ack port_inv_complete port_inv_restart,
      auto simp: port_inv_def)


text \<open>What never goes back, whatever happens to a port.\<close>

definition port_le :: "'ss stream_port \<Rightarrow> 'ss stream_port \<Rightarrow> bool" where
  "port_le p q \<longleftrightarrow> sp_lastAck p \<le> sp_lastAck q \<and> sp_closed p \<subseteq> sp_closed q \<and> sp_fresh p \<le> sp_fresh q \<and>
     (sp_done p \<longrightarrow> sp_done q) \<and> (sp_restartOnce p \<longrightarrow> sp_restartOnce q)"

lemma port_le_lose: "port_le p (lose_path err p)"
  by (auto simp: port_le_def port_op_defs split: option.splits)

lemma port_le_refl: "port_le p p"
  by (simp add: port_le_def)

lemma port_le_ops:
  "port_le p (fst (enqueueReady p packet))" "port_le p (fst (dataForReadyPath sdk payload p))"
  "port_le p (fst (beginOpen session p))" "port_le p (fst (acceptOpenAck session epoch p))"
  "port_le p (fst (beginResume session epoch p))" "port_le p (fst (completeResume session epoch p))"
  "port_le p (fst (requestRestart session p))" "port_le p (sp_close p)"
  by (auto simp: port_le_def port_defs port_op_defs split: prod.splits list.splits)

lemma port_le_ack: "port_le p (acknowledge sdk session frame p)"
  by (auto simp: port_le_def port_defs port_op_defs split: prod.splits option.splits)

lemma port_le_do: "port_le p (port_do sdk ev p)"
  by (cases ev)
     (simp_all add: port_le_ops port_le_ack port_le_lose port_le_refl failPath_def
        failPathIfAckUnchanged_def markPathLostWithError_def,
      simp_all add: port_le_def)

interpretation port: monotone_machine "\<lambda>p. \<exists>target sid sender n. p = new_port target sid sender n"
    "port_step sdk" port_inv port_le for sdk
proof
  fix p :: "'a stream_port"
  assume "\<exists>target sid sender n. p = new_port target sid sender n"
  then show "port_inv p" by (auto simp: port_inv_new)
next
  fix p q :: "'a stream_port"
  assume "port_inv p" "port_step sdk p q"
  then show "port_inv q" by (auto elim!: port_stepE simp: port_inv_do)
next
  fix p q r :: "'a stream_port"
  assume "port_le p q" "port_le q r" then show "port_le p r" by (auto simp: port_le_def)
next
  fix p q :: "'a stream_port"
  assume "port_step sdk p q" then show "port_le p q" by (auto elim!: port_stepE simp: port_le_do)
qed (simp add: port_le_refl)

lemma port_run_inv: "port_inv p \<Longrightarrow> port_inv (port_run sdk evs p)"
  by (rule port.steps_inv [OF port_run_steps])

lemma port_run_new: "port_inv (port_run sdk evs (new_port target sid sender n))"
  by (rule port_run_inv [OF port_inv_new])

lemma port_run_le: "port_inv p \<Longrightarrow> port_le p (port_run sdk evs p)"
  by (rule port.steps_le [OF port_run_steps])

text \<open>C10. Under any interleaving of its goroutines and of late, duplicated or forged frames, a port
  never panics by closing a channel twice; its path is ready exactly when the channel its
  writer waits on is closed; the error of an attempt, the lost and the wake token are each held at
  most once; a requested rebuild also closes the port; and its queue keeps within its bound.\<close>

theorem port_never_panics:
  "(let p = port_run sdk evs (new_port target sid sender n) in
     \<not> sp_panicked p \<and> sp_readyState p = (snd (currentPath p) \<in> sp_closed p) \<and>
     length (sp_errs p (sp_attemptErr p)) \<le> 1 \<and> \<not> (restartRequested p \<and> \<not> sp_done p) \<and>
     length (sp_queue p) \<le> sp_slots p)"
  using port_run_new [of sdk evs target sid sender n]
  by (simp add: port_inv_def Let_def currentPath_def restartRequested_def)

text \<open>C36. Progress is never undone: along any run the acknowledged offset does not decrease, a path
  that was announced ready on a channel stays announced there, a closed port stays closed, and of
  all requests to rebuild a port only one is granted.\<close>

theorem port_progress_monotone:
  "(let p = port_run sdk pre (new_port target sid sender n); q = port_run sdk evs p in
     sp_lastAck p \<le> sp_lastAck q \<and> sp_closed p \<subseteq> sp_closed q \<and>
     \<not> (sp_done p \<and> \<not> sp_done q) \<and>
     \<not> (snd (requestRestart session p) \<and>
        snd (requestRestart session' (port_run sdk evs (fst (requestRestart session p))))))"
proof -
  let ?p = "port_run sdk pre (new_port target sid sender n)"
  let ?r = "fst (requestRestart session ?p)"
  have inv: "port_inv ?p" by (rule port_run_new)
  have le: "port_le ?p (port_run sdk evs ?p)" by (rule port_run_le [OF inv])
  have r: "port_le ?r (port_run sdk evs ?r)" by (rule port_run_le [OF port_inv_restart(1) [OF inv]])
  have "snd (requestRestart session ?p) \<Longrightarrow> sp_restartOnce ?r"
    by (auto simp: requestRestart_def sp_close_def Let_def split: if_splits)
  with r have "snd (requestRestart session ?p) \<Longrightarrow> \<not> snd (requestRestart session' (port_run sdk evs ?r))"
    by (auto simp: port_le_def requestRestart_def)
  with le show ?thesis by (auto simp: Let_def port_le_def)
qed


section \<open>The writer is not stranded\<close>

fun opens :: "port_event \<Rightarrow> bool" where
  "opens (EvBeginOpen session) = True"
| "opens _ = False"

lemma ready_kept_lose:
  assumes "port_inv p" "c \<in> sp_closed p \<or> c = sp_ready p"
  shows "c \<in> sp_closed (lose_path err p) \<or> c = sp_ready (lose_path err p)"
  using assms by (auto simp: port_inv_def port_op_defs split: option.splits)

lemma ready_kept_do:
  assumes "port_inv p" "c \<in> sp_closed p \<or> c = sp_ready p" "\<not> opens ev"
  shows "c \<in> sp_closed (port_do sdk ev p) \<or> c = sp_ready (port_do sdk ev p)"
proof (cases ev)
  case (EvAck session frame)
  then show ?thesis using assms(2)
    by (auto simp: port_defs port_op_defs split: prod.splits option.splits)
next
  case (EvBeginResume session)
  then show ?thesis using assms(1,2) by (auto simp: port_inv_def port_defs port_op_defs)
next
  case (EvCompleteResume session epoch)
  then show ?thesis using assms(2) by (auto simp: port_defs port_op_defs split: list.splits)
qed (use assms ready_kept_lose [OF assms(1,2)] in
      \<open>auto simp: port_defs port_op_defs failPath_def failPathIfAckUnchanged_def markPathLostWithError_def
        split: prod.splits option.splits\<close>)

lemma ready_kept_run:
  assumes "port_inv p" "c \<in> sp_closed p \<or> c = sp_ready p" "list_all (\<lambda>ev. \<not> opens ev) evs"
  shows "c \<in> sp_closed (port_run sdk evs p) \<or> c = sp_ready (port_run sdk evs p)"
  using assms
proof (induction evs arbitrary: p)
  case (Cons ev evs)
  from Cons.prems have "c \<in> sp_closed (port_do sdk ev p) \<or> c = sp_ready (port_do sdk ev p)"
    by (intro ready_kept_do) auto
  with Cons port_inv_do [OF Cons.prems(1)] show ?case by simp
qed simp

text \<open>C17. A writer that waits for its path is not stranded: once a stream is open, the channel it
  obtained from \<open>currentPath\<close> stays the port's current one until it is closed, through every
  failure, loss and Resume, so whenever the path is ready again that channel is closed and the
  writer runs. (Only \<open>beginOpen\<close> abandons a channel, which happens before the writer starts.)\<close>

theorem writer_not_stranded:
  assumes "list_all (\<lambda>ev. \<not> opens ev) evs"
  shows "(let p = port_run sdk pre (new_port target sid sender n); q = port_run sdk evs p; channel = snd (currentPath p)
     in (channel \<in> sp_closed q \<or> channel = snd (currentPath q)) \<and> (sp_readyState q \<longrightarrow> channel \<in> sp_closed q))"
proof -
  let ?p = "port_run sdk pre (new_port target sid sender n)"
  let ?q = "port_run sdk evs ?p"
  have "sp_ready ?p \<in> sp_closed ?q \<or> sp_ready ?p = sp_ready ?q"
    by (rule ready_kept_run [OF port_run_new _ assms]) simp
  moreover have "port_inv ?q" by (rule port_run_inv [OF port_run_new])
  ultimately show ?thesis by (auto simp: Let_def currentPath_def port_inv_def)
qed

text \<open>A sender that takes everything: its state is the offset reached, whatever is acknowledged.\<close>

definition counting_sender :: "u64 sender_sdk" where
  "counting_sender =
     \<lparr>sender_Data = (\<lambda>off payload. ((zero_frame\<lparr>fr_Kind := KData, fr_Offset := off, fr_Payload := payload\<rparr>, None),
                                  off + of_nat (length payload))),
      sender_Acknowledge = (\<lambda>off _ _ _. (None, off)),
      sender_Resume = (\<lambda>off _ _. (([], None), off))\<rparr>"

text \<open>The path fails while the writer waits on channel 2, and a Resume completes on channel 4... the
  writer that looked after the failure is released.\<close>

theorem writer_not_stranded_witness:
  "(let s = SessionRef 1 ''s'';
        p = port_run counting_sender [EvBeginOpen s, EvOpenAck s 1, EvFail s 1 ErrStreamAckStalled]
              (new_port (UserRef 1 2) ''id'' 0 4);
        q = port_run counting_sender
              [EvBeginResume s, EvAck s (zero_frame\<lparr>fr_Kind := KAck, fr_Epoch := 2\<rparr>), EvCompleteResume s 2] p
    in snd (currentPath p) \<in> sp_closed q \<and> sp_readyState q)"
proof -
  let ?s = "SessionRef 1 ''s''"
  let ?pre = "[EvBeginOpen ?s, EvOpenAck ?s 1, EvFail ?s 1 ErrStreamAckStalled]"
  let ?evs = "[EvBeginResume ?s, EvAck ?s (zero_frame\<lparr>fr_Kind := KAck, fr_Epoch := 2\<rparr>), EvCompleteResume ?s 2]"
  have ready: "sp_readyState (port_run counting_sender ?evs (port_run counting_sender ?pre (new_port (UserRef 1 2) ''id'' 0 4)))"
    by (simp add: new_port_def zero_frame_def counting_sender_def port_defs port_op_defs nextEpoch_def)
  with writer_not_stranded [where evs = ?evs and pre = ?pre and sdk = counting_sender and target = "UserRef 1 2"
      and sid = "''id''" and sender = 0 and n = 4]
  show ?thesis by (simp only: Let_def) (auto simp: Let_def)
qed

section \<open>Frames of a past epoch\<close>

text \<open>The event carries the epoch of the attempt it belongs to.\<close>

fun of_epoch :: "u64 \<Rightarrow> port_event \<Rightarrow> bool" where
  "of_epoch e (EvOpenAck session epoch) = (epoch = e)"
| "of_epoch e (EvFail session epoch err) = (epoch = e)"
| "of_epoch e (EvFailIf session epoch ack window err) = (epoch = e)"
| "of_epoch e (EvAck session frame) = (fr_Epoch frame = e)"
| "of_epoch e (EvCompleteResume session epoch) = (epoch = e)"
| "of_epoch e _ = False"

fun resumes :: "port_event \<Rightarrow> nat" where
  "resumes (EvBeginResume session) = 1"
| "resumes _ = 0"

lemma of_epoch_stale: "of_epoch e ev \<Longrightarrow> sp_epoch p \<noteq> e \<Longrightarrow> port_do sdk ev p = p"
  by (cases ev) (auto simp: acceptOpenAck_def failPath_def failPathIfAckUnchanged_def acknowledge_def completeResume_def)

lemma lose_epoch [simp]: "sp_epoch (lose_path err p) = sp_epoch p"
  by (auto simp: port_op_defs split: option.splits)

lemma ack_epoch [simp]: "sp_epoch (acknowledge sdk session frame p) = sp_epoch p"
  by (auto simp: port_defs port_op_defs split: prod.splits option.splits)

lemma complete_epoch [simp]: "sp_epoch (fst (completeResume session epoch p)) = sp_epoch p"
  by (auto simp: port_defs port_op_defs split: list.splits)

lemma data_epoch [simp]: "sp_epoch (fst (dataForReadyPath sdk payload p)) = sp_epoch p"
  by (auto simp: port_defs port_op_defs split: prod.splits)

lemma epoch_do: "sp_epoch (port_do sdk ev p) = sp_epoch p + of_nat (resumes ev)"
  by (cases ev) (auto simp: enqueueReady_def sp_enqueue_def beginOpen_def acceptOpenAck_def failPath_def
      failPathIfAckUnchanged_def markPathLostWithError_def beginResume_def nextEpoch_def sp_close_def
      requestRestart_def close_chan_def remake_ready_def remake_attemptErr_def remake_resumeReady_def
      chan_offer_def Let_def split: prod.splits)

lemma of_nat_u64_ne: "0 < k \<Longrightarrow> k < 2 ^ 64 \<Longrightarrow> e + of_nat k \<noteq> (e :: u64)"
  by (auto simp: word_of_nat_eq_0_iff dest: nat_dvd_not_less)

lemma stale_run:
  assumes "0 < k" "k + sum_list (map resumes evs) < 2 ^ 64" "sp_epoch p = e + of_nat k"
  shows "port_run sdk evs p = port_run sdk (filter (\<lambda>ev. \<not> of_epoch e ev) evs) p"
  using assms
proof (induction evs arbitrary: p k)
  case (Cons ev evs)
  have ne: "sp_epoch p \<noteq> e" using of_nat_u64_ne [of k e] Cons.prems by simp
  have step: "port_run sdk evs (port_do sdk ev p) = port_run sdk (filter (\<lambda>ev. \<not> of_epoch e ev) evs) (port_do sdk ev p)"
    by (rule Cons.IH [of "k + resumes ev"]) (use Cons.prems in \<open>auto simp: epoch_do\<close>)
  then show ?case using of_epoch_stale [OF _ ne, of ev] by auto
qed simp

text \<open>C11. Once a Resume has moved a port to the next epoch, every OpenAck, ACK, send failure, stall
  verdict and Resume completion of the epoch left behind is without effect, wherever it arrives:
  a run with them is the run without them (for fewer than 2^64 Resumes, when epochs wrap).\<close>

theorem past_epoch_has_no_effect:
  assumes "sum_list (map resumes evs) + 1 < 2 ^ 64"
  shows "port_run sdk (EvBeginResume session # evs) p =
         port_run sdk (EvBeginResume session # filter (\<lambda>ev. \<not> of_epoch (sp_epoch p) ev) evs) p"
proof -
  have "sp_epoch (port_do sdk (EvBeginResume session) p) = sp_epoch p + of_nat 1"
    by (simp only: epoch_do resumes.simps)
  from stale_run [OF _ _ this, of evs sdk] assms show ?thesis by simp
qed

theorem past_epoch_has_no_effect_witness:
  "(let s = SessionRef 1 ''s''; p = new_port (UserRef 1 2) ''id'' 0 4 in
     port_run counting_sender [EvBeginResume s, EvFail s 1 ErrStreamAckStalled, EvOpenAck s 1] p =
     port_run counting_sender [EvBeginResume s] p)"
  using past_epoch_has_no_effect [of "[EvFail (SessionRef 1 ''s'') 1 ErrStreamAckStalled, EvOpenAck (SessionRef 1 ''s'') 1]"
      counting_sender "SessionRef 1 ''s''" "new_port (UserRef 1 2) ''id'' 0 4"]
  by (simp add: new_port_def Let_def)


section \<open>When a Resume completes\<close>

text \<open>
  What may happen to a port between \<open>beginResume\<close> and \<open>completeResume\<close>: anything but another
  attempt of the recovering goroutine itself, its own receptions from the attempt's channels other
  than the token of \<open>resumeReady\<close>, and an OpenAck of the Resume's own epoch, which no peer sends
  since only the Open of epoch 1 is acknowledged with one.
\<close>

fun during_resume :: "session_ref \<Rightarrow> u64 \<Rightarrow> port_event \<Rightarrow> bool" where
  "during_resume session epoch (EvBeginOpen s) = False"
| "during_resume session epoch (EvBeginResume s) = False"
| "during_resume session epoch (EvCompleteResume s e) = False"
| "during_resume session epoch (EvTakeErr c) = False"
| "during_resume session epoch (EvOpenAck s e) = (s \<noteq> session \<or> e \<noteq> epoch)"
| "during_resume session epoch ev = True"

fun acks :: "session_ref \<Rightarrow> u64 \<Rightarrow> port_event \<Rightarrow> bool" where
  "acks session epoch (EvAck s frame) = (s = session \<and> fr_Epoch frame = epoch)"
| "acks session epoch _ = False"

fun fails :: "session_ref \<Rightarrow> u64 \<Rightarrow> port_event \<Rightarrow> bool" where
  "fails session epoch (EvFail s e err) = (s = session \<and> e = epoch)"
| "fails session epoch (EvLost (Some err)) = True"
| "fails session epoch _ = False"

definition resuming :: "session_ref \<Rightarrow> u64 \<Rightarrow> bool \<Rightarrow> bool \<Rightarrow> 'ss stream_port \<Rightarrow> bool" where
  "resuming session epoch acked failed p \<longleftrightarrow>
     sp_targetSession p = session \<and> sp_epoch p = epoch \<and> \<not> sp_readyState p \<and>
     (acked \<or> sp_resumeReady p \<noteq> None) \<and> (failed \<longrightarrow> sp_errs p (sp_attemptErr p) \<noteq> [])"

lemma resuming_lose:
  "resuming session epoch acked failed p \<Longrightarrow>
   resuming session epoch acked (failed \<or> err \<noteq> None) (lose_path err p)"
  by (auto simp: resuming_def port_op_defs split: option.splits)

lemma resuming_do:
  assumes "resuming session epoch acked failed p" "during_resume session epoch ev"
  shows "resuming session epoch (acked \<or> acks session epoch ev) (failed \<or> fails session epoch ev) (port_do sdk ev p)"
proof (cases ev)
  case (EvFail s e err)
  with assms(1) resuming_lose [OF assms(1), of "Some err"] show ?thesis
    by (auto simp: failPath_def resuming_def)
next
  case (EvFailIf s e a w err)
  with assms(1) resuming_lose [OF assms(1), of "Some err"] show ?thesis
    by (auto simp: failPathIfAckUnchanged_def resuming_def)
next
  case (EvLost err)
  with resuming_lose [OF assms(1), of err] show ?thesis
    by (cases err) (simp_all add: markPathLostWithError_def resuming_def)
next
  case (EvAck s frame)
  with assms(1) show ?thesis
    by (auto simp: resuming_def port_defs port_op_defs split: prod.splits option.splits)
qed (use assms in \<open>auto simp: resuming_def port_defs port_op_defs split: prod.splits\<close>)

lemma resuming_run:
  assumes "resuming session epoch acked failed p" "list_all (during_resume session epoch) evs"
  shows "resuming session epoch (acked \<or> list_ex (acks session epoch) evs)
           (failed \<or> list_ex (fails session epoch) evs) (port_run sdk evs p)"
  using assms
proof (induction evs arbitrary: p acked failed)
  case (Cons ev evs)
  from Cons.IH [OF resuming_do [OF Cons.prems(1)], of ev] Cons.prems(2) show ?case
    by (simp add: disj_assoc)
qed simp

text \<open>C5. A Resume completes only on its own merits: the path is marked ready again only if, since
  \<open>beginResume\<close>, an ACK of this session and epoch arrived, and no send failure of the attempt and no
  loss of the connection with a reason was reported, in whatever order these raced.\<close>

theorem resume_completes_only_when_acked:
  assumes "list_all (during_resume session (nextEpoch p)) evs"
    and "snd (completeResume session (nextEpoch p) (port_run sdk evs (port_do sdk (EvBeginResume session) p)))"
  shows "list_ex (acks session (nextEpoch p)) evs \<and> \<not> list_ex (fails session (nextEpoch p)) evs"
proof -
  have "resuming session (nextEpoch p) False False (port_do sdk (EvBeginResume session) p)"
    by (simp add: resuming_def port_defs port_op_defs)
  from resuming_run [OF this assms(1), of sdk] assms(2) show ?thesis
    by (auto simp: resuming_def completeResume_def split: list.splits if_splits)
qed

theorem resume_completes_only_when_acked_witness:
  "(let s = SessionRef 1 ''s''; p = new_port (UserRef 1 2) ''id'' (0 :: u64) 4;
        evs = [EvLost None, EvAck s (zero_frame\<lparr>fr_Kind := KAck, fr_Epoch := 2\<rparr>)]
    in snd (completeResume s 2 (port_run counting_sender evs (port_do counting_sender (EvBeginResume s) p))) \<and>
       list_ex (acks s 2) evs)"
proof -
  let ?s = "SessionRef 1 ''s''" and ?p = "new_port (UserRef 1 2) ''id'' (0 :: u64) 4"
  let ?evs = "[EvLost None, EvAck ?s (zero_frame\<lparr>fr_Kind := KAck, fr_Epoch := 2\<rparr>)]"
  have e: "nextEpoch ?p = 2" by (simp add: nextEpoch_def new_port_def)
  have c: "snd (completeResume ?s 2 (port_run counting_sender ?evs (port_do counting_sender (EvBeginResume ?s) ?p)))"
    by (simp add: new_port_def zero_frame_def counting_sender_def port_defs port_op_defs nextEpoch_def)
  have "list_ex (acks ?s 2) ?evs"
    using resume_completes_only_when_acked [of ?s ?p ?evs counting_sender] c unfolding e by simp
  with c show ?thesis by (simp only: Let_def simp_thms)
qed

section \<open>Where a failure goes\<close>

text \<open>A failure that names the port's current session and epoch is acted on exactly once: on a
  ready path it takes the path down (a new channel for the writer, a lost token for the
  lifecycle, a wake token for the writer), during an Open or Resume the first one is left for that
  attempt and nothing else changes; a failure that names any other path changes nothing.\<close>

theorem failPath_outcome:
  "(let (q, accepted) = failPath session epoch err p in
      accepted = (sp_targetSession p = session \<and> sp_epoch p = epoch) \<and>
      (if \<not> accepted then q = p
       else if sp_readyState p
       then q = p\<lparr>sp_readyState := False, sp_ready := sp_fresh p, sp_fresh := Suc (sp_fresh p),
                  sp_lost := True, sp_wake := True\<rparr>
       else q = p\<lparr>sp_errs := (sp_errs p)(sp_attemptErr p :=
                  if sp_errs p (sp_attemptErr p) = [] then [err] else sp_errs p (sp_attemptErr p))\<rparr>))"
  by (auto simp: failPath_def port_op_defs)

section \<open>Stall detection\<close>

text \<open>
  \<open>streamWindowStall\<close>: the writer samples the progress of acknowledgements and calls it stalled
  when two samples at least \<open>timeout\<close> apart, and every one in between, show the same session,
  epoch, offset and window. \<open>since\<close> is None for the zero time.
\<close>

record stream_window_stall =
  st_session :: session_ref
  st_epoch :: u64
  st_ack :: u64
  st_window :: u64
  st_since :: "int option"

definition stall_reset :: stream_window_stall where
  "stall_reset = \<lparr>st_session = zero_session, st_epoch = 0, st_ack = 0, st_window = 0, st_since = None\<rparr>"

type_synonym progress = "session_ref \<times> u64 \<times> u64 \<times> u64"

fun stall_observe :: "progress \<Rightarrow> int \<Rightarrow> int \<Rightarrow> stream_window_stall \<Rightarrow> stream_window_stall \<times> bool" where
  "stall_observe (session, epoch, ack, window) now timeout s =
     (case st_since s of
        None \<Rightarrow> (\<lparr>st_session = session, st_epoch = epoch, st_ack = ack, st_window = window, st_since = Some now\<rparr>, False)
      | Some since \<Rightarrow>
          if st_session s \<noteq> session \<or> st_epoch s \<noteq> epoch \<or> st_ack s \<noteq> ack \<or> st_window s \<noteq> window
          then (\<lparr>st_session = session, st_epoch = epoch, st_ack = ack, st_window = window, st_since = Some now\<rparr>, False)
          else (s, now - since \<ge> timeout))"

text \<open>A run of samples, each a progress and the time it is taken, with the last verdict.\<close>

definition stall_run :: "int \<Rightarrow> (progress \<times> int) list \<Rightarrow> stream_window_stall \<times> bool" where
  "stall_run timeout xs =
     fold (\<lambda>(x, now) (s, stalled). stall_observe x now timeout s) xs (stall_reset, False)"

text \<open>The samples at the end of a run that agree with its last one.\<close>

definition unchanged :: "(progress \<times> int) list \<Rightarrow> (progress \<times> int) list" where
  "unchanged xs = rev (takeWhile (\<lambda>x. fst x = fst (last xs)) (rev xs))"



lemma unchanged_snoc:
  "unchanged (xs @ [y]) = (if xs \<noteq> [] \<and> fst (last xs) = fst y then unchanged xs @ [y] else [y])"
  by (cases xs rule: rev_cases) (auto simp: unchanged_def)

lemma unchanged_ne: "xs \<noteq> [] \<Longrightarrow> unchanged xs \<noteq> []"
  by (cases xs rule: rev_cases) (auto simp: unchanged_snoc)

definition stall_of :: "progress \<Rightarrow> int \<Rightarrow> stream_window_stall" where
  "stall_of x since =
     (case x of (session, epoch, ack, window) \<Rightarrow>
        \<lparr>st_session = session, st_epoch = epoch, st_ack = ack, st_window = window, st_since = Some since\<rparr>)"

lemma stall_observe_of:
  "stall_observe y now timeout (stall_of x since) =
     (if x = y then (stall_of x since, now - since \<ge> timeout) else (stall_of y now, False))"
  by (cases x; cases y) (auto simp: stall_of_def)

lemma stall_observe_reset: "stall_observe y now timeout stall_reset = (stall_of y now, False)"
  by (cases y) (auto simp: stall_of_def stall_reset_def)

lemma stall_run_eq:
  "xs \<noteq> [] \<Longrightarrow> stall_run timeout xs =
     (stall_of (fst (last xs)) (snd (hd (unchanged xs))),
      2 \<le> length (unchanged xs) \<and> snd (last xs) - snd (hd (unchanged xs)) \<ge> timeout)"
proof (induction xs rule: rev_induct)
  case (snoc y xs)
  obtain x now where y: "y = (x, now)" by (cases y)
  show ?case
  proof (cases "xs = []")
    case True
    then show ?thesis by (simp add: stall_run_def y stall_observe_reset unchanged_def)
  next
    case False
    then have "length (unchanged xs) \<ge> 1" using unchanged_ne [of xs] by (cases "unchanged xs") auto
    moreover have "stall_run timeout (xs @ [y]) = stall_observe x now timeout (fst (stall_run timeout xs))"
      by (simp add: stall_run_def y split: prod.splits)
    ultimately show ?thesis
      using snoc.IH [OF False] unchanged_ne [OF False] False
      by (auto simp: stall_observe_of unchanged_snoc y)
  qed
qed simp

text \<open>C35. The stall detector raises its alarm on a sample exactly when that sample and an unbroken run
  of samples before it show the very same session, epoch, offset and window over at least the
  timeout: any acknowledged byte, window change, new epoch or new session in between restarts the
  clock, so a slow but moving peer is never declared stalled.\<close>

theorem stall_iff_no_progress:
  assumes "xs \<noteq> []"
  shows "snd (stall_run timeout xs) =
     (2 \<le> length (unchanged xs) \<and> snd (last xs) - snd (hd (unchanged xs)) \<ge> timeout)"
  by (simp add: stall_run_eq [OF assms])

theorem stall_iff_no_progress_witness:
  "(let s = SessionRef 1 ''s'' in
      snd (stall_run 5 [((s, 1, 10, 0), 0), ((s, 1, 20, 0), 4), ((s, 1, 20, 0), 7), ((s, 1, 20, 0), 9)]) \<and>
      \<not> snd (stall_run 5 [((s, 1, 10, 0), 0), ((s, 1, 20, 0), 4), ((s, 1, 20, 0), 7)]))"
  by (simp add: stall_iff_no_progress unchanged_def Let_def)

end
