(* ===== verification/StreamRecv.thy ===== *)
theory StreamRecv
  imports StreamPort "HOL-Library.Sublist"
begin

text \<open>
  The inbound end of a stream, \<open>streamReceiver\<close> of internal/tun/stream.go: the session replies go
  to, the SDK's receiver state, and the writer goroutine that sends acknowledgements off the
  reader's path. Of the acknowledgements not yet sent only the newest is kept. \<open>ackLoop\<close> is a
  program counter stepped through its blocking points; the operations under \<open>ackMu\<close> interleave
  with it. \<open>turntf.StreamReceiverState\<close> is a parameter.
\<close>

section \<open>The state\<close>

record 'rs receiver_sdk =
  receiver_New :: "stream_id \<Rightarrow> u64 \<Rightarrow> u64 \<Rightarrow> 'rs"
  receiver_Accept :: "'rs \<Rightarrow> stream_frame \<Rightarrow> (bytes \<times> stream_frame \<times> stream_error option) \<times> 'rs"
  receiver_Resume :: "'rs \<Rightarrow> u64 \<Rightarrow> u64 \<Rightarrow> (stream_frame \<times> stream_error option) \<times> 'rs"

text \<open>Not started, at the outer \<open>select\<close>, about to call \<open>takeAck\<close>, about to send, returned.\<close>

datatype ack_pc = AckIdle | AckWait | AckTake | AckSend stream_frame | AckReturned

text \<open>\<open>rv_ackWake\<close> tells whether the channel was made, \<open>rv_token\<close> whether it holds its token;
  \<open>rv_sent\<close> lists what the writer sent and to which session.\<close>

record 'rs stream_receiver =
  rv_peer :: user_ref
  rv_targetSession :: session_ref
  rv_state :: 'rs
  rv_ackPending :: "stream_frame option"
  rv_ackWake :: bool
  rv_token :: bool
  rv_ackStopped :: bool
  rv_pc :: ack_pc
  rv_sent :: "(session_ref \<times> stream_frame) list"

definition new_receiver :: "user_ref \<Rightarrow> session_ref \<Rightarrow> 'rs \<Rightarrow> 'rs stream_receiver" where
  "new_receiver peer session state =
     \<lparr>rv_peer = peer, rv_targetSession = session, rv_state = state, rv_ackPending = None, rv_ackWake = False,
      rv_token = False, rv_ackStopped = False, rv_pc = AckIdle, rv_sent = []\<rparr>"

section \<open>The operations\<close>

definition queueAck :: "stream_frame \<Rightarrow> 'rs stream_receiver \<Rightarrow> 'rs stream_receiver" where
  "queueAck ack r =
     (if rv_ackStopped r then r
      else let r = r\<lparr>rv_ackPending := Some ack\<rparr>;
               r = (if \<not> rv_ackWake r then r\<lparr>rv_ackWake := True, rv_pc := AckWait\<rparr> else r)
           in r\<lparr>rv_token := True\<rparr>)"

definition dropPendingAck :: "'rs stream_receiver \<Rightarrow> 'rs stream_receiver" where
  "dropPendingAck r = r\<lparr>rv_ackPending := None\<rparr>"

definition stopAcks :: "'rs stream_receiver \<Rightarrow> 'rs stream_receiver" where
  "stopAcks r =
     (let r = r\<lparr>rv_ackStopped := True, rv_ackPending := None\<rparr>
      in if rv_ackWake r then r\<lparr>rv_token := True\<rparr> else r)"

text \<open>The acknowledgement taken, if any, and whether the receiver was stopped.\<close>

definition takeAck :: "'rs stream_receiver \<Rightarrow> 'rs stream_receiver \<times> stream_frame option \<times> bool" where
  "takeAck r =
     (if rv_ackStopped r then (r, None, True)
      else case rv_ackPending r of
             None \<Rightarrow> (r, None, False)
           | Some ack \<Rightarrow> (r\<lparr>rv_ackPending := None\<rparr>, Some ack, False))"

text \<open>One turn of \<open>ackLoop\<close>; a loop that is blocked or gone stays where it is.\<close>

definition ackLoop :: "'rs stream_receiver \<Rightarrow> 'rs stream_receiver" where
  "ackLoop r =
     (case rv_pc r of
        AckWait \<Rightarrow> if rv_token r then r\<lparr>rv_token := False, rv_pc := AckTake\<rparr> else r
      | AckTake \<Rightarrow>
          (let (r, ack, stopped) = takeAck r
           in if stopped then r\<lparr>rv_pc := AckReturned\<rparr>
              else case ack of None \<Rightarrow> r\<lparr>rv_pc := AckWait\<rparr> | Some a \<Rightarrow> r\<lparr>rv_pc := AckSend a\<rparr>)
      | AckSend a \<Rightarrow> r\<lparr>rv_sent := rv_sent r @ [(rv_targetSession r, a)], rv_pc := AckTake\<rparr>
      | _ \<Rightarrow> r)"

definition ack_ctx_done :: "'rs stream_receiver \<Rightarrow> 'rs stream_receiver" where
  "ack_ctx_done r = (if rv_pc r = AckWait then r\<lparr>rv_pc := AckReturned\<rparr> else r)"

text \<open>\<open>SessionRef.IsZero\<close> is the SDK's, a parameter.\<close>

definition setSession ::
    "(session_ref \<Rightarrow> bool) \<Rightarrow> session_ref \<Rightarrow> 'rs stream_receiver \<Rightarrow> 'rs stream_receiver" where
  "setSession isZero session r = (if isZero session then r else r\<lparr>rv_targetSession := session\<rparr>)"

section \<open>Interleavings\<close>

datatype recv_event =
    RvQueue stream_frame | RvDrop | RvStop | RvSession "session_ref \<Rightarrow> bool" session_ref | RvCtxDone | RvTurn

fun recv_do :: "recv_event \<Rightarrow> 'rs stream_receiver \<Rightarrow> 'rs stream_receiver" where
  "recv_do (RvQueue ack) r = queueAck ack r"
| "recv_do RvDrop r = dropPendingAck r"
| "recv_do RvStop r = stopAcks r"
| "recv_do (RvSession isZero session) r = setSession isZero session r"
| "recv_do RvCtxDone r = ack_ctx_done r"
| "recv_do RvTurn r = ackLoop r"

abbreviation recv_run :: "recv_event list \<Rightarrow> 'rs stream_receiver \<Rightarrow> 'rs stream_receiver" where
  "recv_run \<equiv> fold recv_do"

declare queueAck_def [recv_defs] dropPendingAck_def [recv_defs] stopAcks_def [recv_defs]
  takeAck_def [recv_defs] ackLoop_def [recv_defs] ack_ctx_done_def [recv_defs] setSession_def [recv_defs]
  Let_def [recv_defs]

inductive recv_step :: "'rs stream_receiver \<Rightarrow> 'rs stream_receiver \<Rightarrow> bool" where
  recv_event: "recv_step r (recv_do ev r)"

inductive_cases recv_stepE: "recv_step r t"

lemma recv_run_steps: "recv_step\<^sup>*\<^sup>* r (recv_run evs r)"
  by (induction evs arbitrary: r) (auto intro: converse_rtranclp_into_rtranclp recv_event)

text \<open>A pending acknowledgement is never forgotten: the loop that will send it is running or has
  been told; once stopped, nothing is pending and a waiting loop has been told to leave.\<close>

definition recv_inv :: "'rs stream_receiver \<Rightarrow> bool" where
  "recv_inv r \<longleftrightarrow>
     (rv_ackWake r \<longleftrightarrow> rv_pc r \<noteq> AckIdle) \<and> (rv_pc r = AckIdle \<longrightarrow> rv_ackPending r = None \<and> \<not> rv_token r) \<and>
     (rv_pc r = AckWait \<and> (rv_ackPending r \<noteq> None \<or> rv_ackStopped r) \<longrightarrow> rv_token r) \<and>
     (rv_ackStopped r \<longrightarrow> rv_ackPending r = None)"

lemma recv_inv_new: "recv_inv (new_receiver peer session state)"
  by (simp add: recv_inv_def new_receiver_def)

lemma recv_inv_do: "recv_inv r \<Longrightarrow> recv_inv (recv_do ev r)"
  by (cases ev) (auto simp: recv_inv_def recv_defs split: ack_pc.splits option.splits)

interpretation recv: machine "\<lambda>r. \<exists>peer session state. r = new_receiver peer session state" recv_step recv_inv
proof
  fix r :: "'a stream_receiver"
  assume "\<exists>peer session state. r = new_receiver peer session state"
  then show "recv_inv r" by (auto simp: recv_inv_new)
next
  fix r t :: "'a stream_receiver"
  assume "recv_inv r" "recv_step r t" then show "recv_inv t" by (auto elim!: recv_stepE simp: recv_inv_do)
qed

lemma recv_run_inv: "recv_inv r \<Longrightarrow> recv_inv (recv_run evs r)"
  by (rule recv.steps_inv [OF recv_run_steps])


section \<open>What the acknowledgement writer sends\<close>

fun queued_ack :: "recv_event \<Rightarrow> stream_frame list" where
  "queued_ack (RvQueue ack) = [ack]"
| "queued_ack _ = []"

text \<open>The acknowledgements sent, being sent and pending, in order.\<close>

definition ack_history :: "'rs stream_receiver \<Rightarrow> stream_frame list" where
  "ack_history r =
     map snd (rv_sent r) @ (case rv_pc r of AckSend a \<Rightarrow> [a] | _ \<Rightarrow> []) @
     (case rv_ackPending r of None \<Rightarrow> [] | Some a \<Rightarrow> [a])"

lemma ack_history_do:
  assumes "recv_inv r" "subseq (ack_history r) hist"
  shows "subseq (ack_history (recv_do ev r)) (hist @ queued_ack ev)"
proof (cases ev)
  case (RvQueue a)
  have "subseq (map snd (rv_sent r) @ (case rv_pc r of AckSend a \<Rightarrow> [a] | _ \<Rightarrow> [])) hist"
    using assms(2) by (auto simp: ack_history_def simp flip: append_assoc intro: subseq_order.trans)
  then have "subseq ((map snd (rv_sent r) @ (case rv_pc r of AckSend a \<Rightarrow> [a] | _ \<Rightarrow> [])) @ [a]) (hist @ [a])"
    by (intro list_emb_append_mono) auto
  then show ?thesis
    using RvQueue assms by (auto simp: ack_history_def recv_defs recv_inv_def split: ack_pc.splits)
qed (use assms in \<open>auto simp: ack_history_def recv_defs split: ack_pc.splits option.splits
      intro: subseq_order.trans list_emb_append_mono\<close>)

lemma ack_history_run:
  assumes "recv_inv r" "subseq (ack_history r) hist"
  shows "subseq (ack_history (recv_run evs r)) (hist @ concat (map queued_ack evs))"
  using assms
proof (induction evs arbitrary: r hist)
  case (Cons ev evs)
  from Cons.IH [OF recv_inv_do [OF Cons.prems(1)] ack_history_do [OF Cons.prems]] show ?case by simp
qed simp

text \<open>C37. However receptions, Resumes, a close and the acknowledgement writer interleave, the
  acknowledgements sent are some of those queued, in the order they were queued and none twice.\<close>

theorem acks_sent_in_order:
  "subseq (map snd (rv_sent (recv_run evs (new_receiver peer session state)))) (concat (map queued_ack evs))"
proof -
  have "subseq (ack_history (recv_run evs (new_receiver peer session state))) ([] @ concat (map queued_ack evs))"
    by (rule ack_history_run [OF recv_inv_new]) (simp add: ack_history_def new_receiver_def)
  then show ?thesis by (auto simp: ack_history_def intro: subseq_order.trans)
qed

text \<open>C18. No lost wake-up: whenever an acknowledgement is pending and the writer has not been told to
  leave, the writer sends it within three turns, to the receiver's current session, and has nothing
  left pending.\<close>

theorem pending_ack_is_sent:
  assumes "rv_ackPending (recv_run evs (new_receiver peer session state)) = Some ack"
    and "rv_pc (recv_run evs (new_receiver peer session state)) \<noteq> AckReturned"
  shows "(let r = recv_run evs (new_receiver peer session state); q = (ackLoop ^^ 3) r in
           rv_sent q \<noteq> [] \<and> last (rv_sent q) = (rv_targetSession r, ack) \<and> rv_ackPending q = None)"
proof -
  have "recv_inv (recv_run evs (new_receiver peer session state))" by (rule recv_run_inv [OF recv_inv_new])
  with assms show ?thesis
    by (cases "rv_pc (recv_run evs (new_receiver peer session state))")
       (auto simp: recv_inv_def recv_defs numeral_3_eq_3)
qed

theorem pending_ack_is_sent_witness:
  "(let q = (ackLoop ^^ 3) (recv_run [RvQueue zero_frame, RvTurn, RvTurn, RvQueue (zero_frame\<lparr>fr_Offset := 9\<rparr>)]
      (new_receiver (UserRef 1 2) (SessionRef 1 ''s'') ()))
    in rv_sent q \<noteq> [] \<and> last (rv_sent q) = (SessionRef 1 ''s'', zero_frame\<lparr>fr_Offset := 9\<rparr>))"
proof -
  let ?evs = "[RvQueue zero_frame, RvTurn, RvTurn, RvQueue (zero_frame\<lparr>fr_Offset := 9\<rparr>)]"
  let ?r = "new_receiver (UserRef 1 2) (SessionRef 1 ''s'') ()"
  have e: "rv_ackPending (recv_run ?evs ?r) = Some (zero_frame\<lparr>fr_Offset := 9\<rparr>)"
    "rv_pc (recv_run ?evs ?r) \<noteq> AckReturned" "rv_targetSession (recv_run ?evs ?r) = SessionRef 1 ''s''"
    by (simp_all add: new_receiver_def recv_defs)
  from pending_ack_is_sent [OF e(1,2)] show ?thesis unfolding Let_def e(3) by blast
qed

lemma stopped_do:
  assumes "recv_inv r" "rv_ackStopped r"
  shows "rv_ackStopped (recv_do ev r) \<and>
     (\<exists>xs. rv_sent (recv_do ev r) = rv_sent r @ xs \<and>
        length xs + (case rv_pc (recv_do ev r) of AckSend _ \<Rightarrow> 1 | _ \<Rightarrow> 0) \<le> (case rv_pc r of AckSend _ \<Rightarrow> 1 | _ \<Rightarrow> 0))"
  using assms by (cases ev) (auto simp: recv_defs recv_inv_def split: ack_pc.splits option.splits)

lemma stopped_run:
  assumes "recv_inv r" "rv_ackStopped r"
  shows "\<exists>xs. rv_sent (recv_run evs r) = rv_sent r @ xs \<and> length xs \<le> (case rv_pc r of AckSend _ \<Rightarrow> 1 | _ \<Rightarrow> 0)"
  using assms
proof (induction evs arbitrary: r)
  case (Cons ev evs)
  from stopped_do [OF Cons.prems, of ev] obtain xs where xs:
    "rv_ackStopped (recv_do ev r)" "rv_sent (recv_do ev r) = rv_sent r @ xs"
    "length xs + (case rv_pc (recv_do ev r) of AckSend _ \<Rightarrow> 1 | _ \<Rightarrow> 0) \<le> (case rv_pc r of AckSend _ \<Rightarrow> 1 | _ \<Rightarrow> 0)"
    by blast
  from Cons.IH [OF recv_inv_do [OF Cons.prems(1)] xs(1)] obtain ys where
    "rv_sent (recv_run evs (recv_do ev r)) = rv_sent (recv_do ev r) @ ys"
    "length ys \<le> (case rv_pc (recv_do ev r) of AckSend _ \<Rightarrow> 1 | _ \<Rightarrow> 0)" by blast
  with xs show ?case by (intro exI [of _ "xs @ ys"]) simp
qed simp

text \<open>C38. A receiver that is stopped goes quiet: whatever is queued later, at most the one
  acknowledgement already being sent goes out, and the writer goroutine returns within two turns,
  so a removed receiver leaks none.\<close>

theorem stopped_receiver_goes_quiet:
  "(let r = recv_run pre (new_receiver peer session state); q = recv_run evs (stopAcks r) in
     (\<exists>xs. rv_sent q = rv_sent r @ xs \<and> length xs \<le> (case rv_pc r of AckSend _ \<Rightarrow> 1 | _ \<Rightarrow> 0)) \<and>
     rv_pc ((ackLoop ^^ 2) (stopAcks r)) \<in> {AckIdle, AckReturned})"
proof -
  let ?r = "recv_run pre (new_receiver peer session state)"
  have inv: "recv_inv ?r" by (rule recv_run_inv [OF recv_inv_new])
  have "recv_inv (stopAcks ?r)" using recv_inv_do [OF inv, of RvStop] by simp
  moreover have "rv_ackStopped (stopAcks ?r)" "rv_sent (stopAcks ?r) = rv_sent ?r" "rv_pc (stopAcks ?r) = rv_pc ?r"
    by (simp_all add: recv_defs)
  ultimately have "\<exists>xs. rv_sent (recv_run evs (stopAcks ?r)) = rv_sent ?r @ xs \<and>
      length xs \<le> (case rv_pc ?r of AckSend _ \<Rightarrow> 1 | _ \<Rightarrow> 0)"
    using stopped_run [of "stopAcks ?r" evs] by simp
  moreover have "rv_pc ((ackLoop ^^ 2) (stopAcks ?r)) \<in> {AckIdle, AckReturned}"
    using inv by (cases "rv_pc ?r") (auto simp: recv_defs recv_inv_def numeral_2_eq_2)
  ultimately show ?thesis by (simp add: Let_def)
qed

end
