(* ===== verification/Runtime.thy ===== *)
theory Runtime
  imports RelayPorts RelayLoop StreamRecv
begin

text \<open>
  The runtime of internal/tun/runtime.go and the handlers of internal/tun/stream.go: the tables
  that tie peers to their streams, receivers and relay ports, the TUN read loop that routes packets
  into them, and the callbacks of the SDK client. Ports and receivers are pointers in the code and
  numbers into a heap here. Each handler is one function on the state that makes the calls of the
  code in their order; the interleavings within a port or a receiver are the subject of
  \<open>StreamPort\<close> and \<open>StreamRecv\<close>. Sends are recorded in \<open>r_sent\<close>, writes to the TUN device in
  \<open>r_written\<close> (the handlers ignore the errors of both); logging is left out.
\<close>

section \<open>The state\<close>

record ('ss, 'rs) stream_sdk =
  sdk_sender :: "'ss sender_sdk"
  sdk_receiver :: "'rs receiver_sdk"
  sdk_isZero :: "session_ref \<Rightarrow> bool"
  sdk_newSender :: "stream_id \<Rightarrow> u64 \<Rightarrow> u64 \<Rightarrow> 'ss"
  sdk_maxFrame :: nat
  sdk_defaultWindow :: u64

record ('ss, 'rs) runtime =
  r_cfg :: config
  r_routes :: "route list"
  r_relay :: relay_state
  r_activeStreams :: "user_ref \<Rightarrow> nat option"
  r_streamPorts :: "user_ref \<Rightarrow> nat option"
  r_streamRecv :: "stream_id \<Rightarrow> nat option"
  r_preferredStreams :: "user_ref \<Rightarrow> session_ref option"
  r_sports :: "nat \<Rightarrow> 'ss stream_port option"
  r_nextPort :: nat
  r_recvs :: "nat \<Rightarrow> 'rs stream_receiver option"
  r_nextRecv :: nat
  r_localUser :: user_ref
  r_connected :: bool
  r_sent :: "(user_ref \<times> session_ref \<times> stream_frame) list"
  r_written :: "bytes list"

record stream_packet =
  pk_Sender :: user_ref
  pk_TargetSession :: session_ref

record stream_send_result =
  sr_Target :: user_ref
  sr_TargetSession :: session_ref
  sr_StreamID :: stream_id
  sr_Epoch :: u64
  sr_Err :: "stream_error option"

type_synonym ('ss, 'rs) rt = "('ss, 'rs) runtime"

definition on_sport :: "nat \<Rightarrow> ('ss stream_port \<Rightarrow> 'ss stream_port) \<Rightarrow> ('ss, 'rs) rt \<Rightarrow> ('ss, 'rs) rt" where
  "on_sport pid f r = r\<lparr>r_sports := (r_sports r)(pid := map_option f (r_sports r pid))\<rparr>"

definition on_recv :: "nat \<Rightarrow> ('rs stream_receiver \<Rightarrow> 'rs stream_receiver) \<Rightarrow> ('ss, 'rs) rt \<Rightarrow> ('ss, 'rs) rt" where
  "on_recv rid f r = r\<lparr>r_recvs := (r_recvs r)(rid := map_option f (r_recvs r rid))\<rparr>"

abbreviation sport :: "('ss, 'rs) rt \<Rightarrow> nat \<Rightarrow> 'ss stream_port" where
  "sport r pid \<equiv> the (r_sports r pid)"

abbreviation receiver :: "('ss, 'rs) rt \<Rightarrow> nat \<Rightarrow> 'rs stream_receiver" where
  "receiver r rid \<equiv> the (r_recvs r rid)"

text \<open>\<open>sendStreamFrame\<close>, with the peer, the session and the frame it is given.\<close>

definition sendStreamFrame :: "user_ref \<Rightarrow> session_ref \<Rightarrow> stream_frame \<Rightarrow> ('ss, 'rs) rt \<Rightarrow> ('ss, 'rs) rt" where
  "sendStreamFrame peer session frame r = r\<lparr>r_sent := r_sent r @ [(peer, session, frame)]\<rparr>"

definition WritePacket :: "bytes \<Rightarrow> ('ss, 'rs) rt \<Rightarrow> ('ss, 'rs) rt" where
  "WritePacket packet r = r\<lparr>r_written := r_written r @ [packet]\<rparr>"

section \<open>Configured limits\<close>

definition streamWindow :: "('ss, 'rs) stream_sdk \<Rightarrow> ('ss, 'rs) rt \<Rightarrow> u64" where
  "streamWindow sdk r =
     (if tr_StreamWindowBytes (cfg_Transport (r_cfg r)) > 0
      then of_int (tr_StreamWindowBytes (cfg_Transport (r_cfg r))) else sdk_defaultWindow sdk)"

text \<open>\<open>r.streamTimeout\<close> is a test hook, 0 in the program.\<close>

definition streamOpenTimeout :: int where
  "streamOpenTimeout = 5 * second"

definition streamAttemptTimeout :: "int \<Rightarrow> int" where
  "streamAttemptTimeout streamTimeout = (if streamTimeout > 0 then streamTimeout else streamOpenTimeout)"

text \<open>How often an idle writer looks for missing acknowledgements, and how long one wait for credit may last.\<close>

definition millisecond :: int where
  "millisecond = 1000000"

definition streamWindowWaitMax :: int where
  "streamWindowWaitMax = 50 * millisecond"

definition checkInterval :: "int \<Rightarrow> int" where
  "checkInterval streamTimeout =
     (let interval = go_div (streamAttemptTimeout streamTimeout) 4 in if interval < millisecond then millisecond else interval)"

definition windowWait :: "int \<Rightarrow> int" where
  "windowWait streamTimeout =
     (let wait = checkInterval streamTimeout in if wait > streamWindowWaitMax then streamWindowWaitMax else wait)"

lemma wait_intervals:
  "millisecond \<le> windowWait t" "windowWait t \<le> streamWindowWaitMax" "windowWait t \<le> checkInterval t"
  "checkInterval 0 = 1250 * millisecond" "windowWait 0 = streamWindowWaitMax"
  by (simp_all add: windowWait_def checkInterval_def streamWindowWaitMax_def millisecond_def Let_def
      streamAttemptTimeout_def streamOpenTimeout_def second_def go_div_pos)

definition requestAttemptTimeout :: "config \<Rightarrow> int" where
  "requestAttemptTimeout cfg =
     (let timeout = RequestTimeout (cfg_Turntf cfg) in if timeout > 0 then timeout else 10 * second)"

section \<open>Streams as the current outlet of a peer\<close>

definition activateStream :: "user_ref \<Rightarrow> nat \<Rightarrow> ('ss, 'rs) rt \<Rightarrow> ('ss, 'rs) rt" where
  "activateStream peer pid r = r\<lparr>r_activeStreams := (r_activeStreams r)(peer \<mapsto> pid)\<rparr>"

definition deactivateStream :: "user_ref \<Rightarrow> nat \<Rightarrow> ('ss, 'rs) rt \<Rightarrow> ('ss, 'rs) rt" where
  "deactivateStream peer pid r =
     (if r_activeStreams r peer = Some pid
      then r\<lparr>r_activeStreams := (r_activeStreams r)(peer := None)\<rparr> else r)"

definition deactivateStreamIfNotReady :: "user_ref \<Rightarrow> nat \<Rightarrow> ('ss, 'rs) rt \<Rightarrow> ('ss, 'rs) rt" where
  "deactivateStreamIfNotReady peer pid r =
     (if r_activeStreams r peer = Some pid \<and> \<not> sp_readyState (sport r pid)
      then r\<lparr>r_activeStreams := (r_activeStreams r)(peer := None)\<rparr> else r)"

text \<open>The ports are visited in an unspecified order: \<open>items\<close> is the one of this call.\<close>

definition markAllStreamPathsLost ::
    "stream_error option \<Rightarrow> (user_ref \<times> nat) list \<Rightarrow> ('ss, 'rs) rt \<Rightarrow> ('ss, 'rs) rt" where
  "markAllStreamPathsLost reason items r =
     fold (\<lambda>(peer, pid) r. deactivateStreamIfNotReady peer pid (on_sport pid (markPathLostWithError reason) r)) items r"

definition OnDisconnect :: "stream_error option \<Rightarrow> (user_ref \<times> nat) list \<Rightarrow> ('ss, 'rs) rt \<Rightarrow> ('ss, 'rs) rt" where
  "OnDisconnect err items r = markAllStreamPathsLost err items r"

definition OnStreamSendResult :: "stream_send_result \<Rightarrow> ('ss, 'rs) rt \<Rightarrow> ('ss, 'rs) rt" where
  "OnStreamSendResult result r =
     (case sr_Err result of
        None \<Rightarrow> r
      | Some err \<Rightarrow>
          (let peer = sr_Target result; failedSession = sr_TargetSession result
           in case r_streamPorts r peer of
                None \<Rightarrow> r
              | Some pid \<Rightarrow>
                  if sp_id (sport r pid) \<noteq> sr_StreamID result then r
                  else if \<not> snd (failPath failedSession (sr_Epoch result) err (sport r pid)) then r
                  else let r = on_sport pid (\<lambda>p. fst (failPath failedSession (sr_Epoch result) err p)) r;
                           r = deactivateStreamIfNotReady peer pid r
                       in if r_streamPorts r peer = Some pid \<and> r_preferredStreams r peer = Some failedSession
                          then r\<lparr>r_preferredStreams := (r_preferredStreams r)(peer := None)\<rparr> else r))"

section \<open>OnStream\<close>

text \<open>The receivers an Open of stream \<open>sid\<close> from \<open>sender\<close> replaces.\<close>

definition replaced :: "user_ref \<Rightarrow> stream_id \<Rightarrow> ('ss, 'rs) rt \<Rightarrow> stream_id \<Rightarrow> bool" where
  "replaced sender sid r i \<longleftrightarrow>
     i \<noteq> sid \<and> (case r_streamRecv r i of None \<Rightarrow> False | Some rid \<Rightarrow> rv_peer (receiver r rid) = sender)"

definition replaceReceivers :: "user_ref \<Rightarrow> stream_id \<Rightarrow> ('ss, 'rs) rt \<Rightarrow> ('ss, 'rs) rt" where
  "replaceReceivers sender sid r =
     r\<lparr>r_streamRecv := (\<lambda>i. if replaced sender sid r i then None else r_streamRecv r i),
       r_recvs := (\<lambda>rid. if \<exists>i. replaced sender sid r i \<and> r_streamRecv r i = Some rid
                         then map_option stopAcks (r_recvs r rid) else r_recvs r rid)\<rparr>"

definition openReceiver ::
    "('ss, 'rs) stream_sdk \<Rightarrow> stream_packet \<Rightarrow> stream_frame \<Rightarrow> ('ss, 'rs) rt \<Rightarrow> ('ss, 'rs) rt" where
  "openReceiver sdk packet frame r =
     (case r_streamRecv r (fr_ID frame) of
        None \<Rightarrow>
          (let rid = r_nextRecv r;
               rv = new_receiver (pk_Sender packet) (pk_TargetSession packet)
                      (receiver_New (sdk_receiver sdk) (fr_ID frame) (fr_Epoch frame) (fr_Window frame))
           in r\<lparr>r_recvs := (r_recvs r)(rid \<mapsto> rv), r_nextRecv := Suc rid,
                r_streamRecv := (r_streamRecv r)(fr_ID frame \<mapsto> rid)\<rparr>)
      | Some rid \<Rightarrow> on_recv rid (setSession (sdk_isZero sdk) (pk_TargetSession packet)) r)"

definition preferSession :: "user_ref \<Rightarrow> session_ref \<Rightarrow> ('ss, 'rs) rt \<Rightarrow> ('ss, 'rs) rt" where
  "preferSession peer session r = r\<lparr>r_preferredStreams := (r_preferredStreams r)(peer \<mapsto> session)\<rparr>"

definition OnOpen ::
    "('ss, 'rs) stream_sdk \<Rightarrow> stream_packet \<Rightarrow> stream_frame \<Rightarrow> ('ss, 'rs) rt \<Rightarrow> ('ss, 'rs) rt" where
  "OnOpen sdk packet frame r =
     (let sender = pk_Sender packet; session = pk_TargetSession packet;
          r = replaceReceivers sender (fr_ID frame) r;
          r = openReceiver sdk packet frame r;
          r = (if sdk_isZero sdk session then r
               else let r = preferSession sender session r
                    in case r_streamPorts r sender of
                         None \<Rightarrow> r
                       | Some pid \<Rightarrow>
                           if fst (currentPath (sport r pid)) \<noteq> session
                           then on_sport pid (\<lambda>p. fst (requestRestart session p)) r else r)
      in sendStreamFrame sender session
           (zero_frame\<lparr>fr_Kind := KOpenAck, fr_ID := fr_ID frame, fr_Epoch := fr_Epoch frame, fr_Window := fr_Window frame\<rparr>) r)"

definition OnOpenAck :: "stream_packet \<Rightarrow> stream_frame \<Rightarrow> ('ss, 'rs) rt \<Rightarrow> ('ss, 'rs) rt" where
  "OnOpenAck packet frame r =
     (case r_streamPorts r (pk_Sender packet) of
        None \<Rightarrow> r
      | Some pid \<Rightarrow> if sp_id (sport r pid) \<noteq> fr_ID frame then r
          else on_sport pid (\<lambda>p. fst (acceptOpenAck (pk_TargetSession packet) (fr_Epoch frame) p)) r)"

definition writePayload :: "bytes \<Rightarrow> ('ss, 'rs) rt \<Rightarrow> ('ss, 'rs) rt" where
  "writePayload payload r =
     (let (packets, batched) = decodeStreamBatch payload
      in if batched then fold WritePacket packets r else WritePacket payload r)"

definition OnData ::
    "('ss, 'rs) stream_sdk \<Rightarrow> stream_packet \<Rightarrow> stream_frame \<Rightarrow> ('ss, 'rs) rt \<Rightarrow> ('ss, 'rs) rt" where
  "OnData sdk packet frame r =
     (case r_streamRecv r (fr_ID frame) of
        None \<Rightarrow> r
      | Some rid \<Rightarrow>
          (let ((payload, ack, err), state) = receiver_Accept (sdk_receiver sdk) (rv_state (receiver r rid)) frame;
               r = on_recv rid (\<lambda>rv. rv\<lparr>rv_state := state\<rparr>) r
           in if err \<noteq> None then r
              else let r = (if length payload > 0 then writePayload payload r else r)
                   in on_recv rid (queueAck ack) r))"

definition OnAck ::
    "('ss, 'rs) stream_sdk \<Rightarrow> stream_packet \<Rightarrow> stream_frame \<Rightarrow> ('ss, 'rs) rt \<Rightarrow> ('ss, 'rs) rt" where
  "OnAck sdk packet frame r =
     (case r_streamPorts r (pk_Sender packet) of
        None \<Rightarrow> r
      | Some pid \<Rightarrow> if sp_id (sport r pid) \<noteq> fr_ID frame then r
          else on_sport pid (acknowledge (sdk_sender sdk) (pk_TargetSession packet) frame) r)"

definition peerSessionChanged :: stream_error where
  "peerSessionChanged = StreamError ''peer session changed''"

definition OnResume ::
    "('ss, 'rs) stream_sdk \<Rightarrow> stream_packet \<Rightarrow> stream_frame \<Rightarrow> ('ss, 'rs) rt \<Rightarrow> ('ss, 'rs) rt" where
  "OnResume sdk packet frame r =
     (case r_streamRecv r (fr_ID frame) of
        None \<Rightarrow> r
      | Some rid \<Rightarrow>
          (let sender = pk_Sender packet; session = pk_TargetSession packet;
               ((ack, err), state) =
                 receiver_Resume (sdk_receiver sdk) (rv_state (receiver r rid)) (fr_Epoch frame) (fr_Offset frame);
               r = on_recv rid (\<lambda>rv. rv\<lparr>rv_state := state\<rparr>) r
           in if err \<noteq> None then r
              else let r = on_recv rid (setSession (sdk_isZero sdk) session) r;
                       (r, lostPort) =
                         (if sdk_isZero sdk session then (r, None)
                          else let r = preferSession sender session r
                               in case r_streamPorts r sender of
                                    None \<Rightarrow> (r, None)
                                  | Some pid \<Rightarrow> (r, if fst (currentPath (sport r pid)) \<noteq> session then Some pid else None));
                       r = (case lostPort of
                              None \<Rightarrow> r
                            | Some pid \<Rightarrow> deactivateStreamIfNotReady sender pid
                                (on_sport pid (markPathLostWithError (Some peerSessionChanged)) r));
                       r = on_recv rid dropPendingAck r
                   in sendStreamFrame (rv_peer (receiver r rid)) (rv_targetSession (receiver r rid)) ack r))"

definition OnClose :: "stream_frame \<Rightarrow> ('ss, 'rs) rt \<Rightarrow> ('ss, 'rs) rt" where
  "OnClose frame r =
     (let rid = r_streamRecv r (fr_ID frame);
          r = r\<lparr>r_streamRecv := (r_streamRecv r)(fr_ID frame := None)\<rparr>
      in case rid of None \<Rightarrow> r | Some rid \<Rightarrow> on_recv rid stopAcks r)"

definition OnStream ::
    "('ss, 'rs) stream_sdk \<Rightarrow> stream_packet \<Rightarrow> stream_frame \<Rightarrow> ('ss, 'rs) rt \<Rightarrow> ('ss, 'rs) rt" where
  "OnStream sdk packet frame r =
     (case fr_Kind frame of
        KOpen \<Rightarrow> OnOpen sdk packet frame r
      | KOpenAck \<Rightarrow> OnOpenAck packet frame r
      | KData \<Rightarrow> OnData sdk packet frame r
      | KAck \<Rightarrow> OnAck sdk packet frame r
      | KResume \<Rightarrow> OnResume sdk packet frame r
      | KClose \<Rightarrow> OnClose frame r
      | KOther \<Rightarrow> r)"

section \<open>readTUNLoop\<close>

definition readTUNPacket :: "bytes \<Rightarrow> ('ss, 'rs) rt \<Rightarrow> ('ss, 'rs) rt" where
  "readTUNPacket packet r =
     (if length packet = 0 \<or> int (length packet) > tr_MaxPacketBytes (cfg_Transport (r_cfg r)) then r
      else case lookup (r_routes r) packet of
        None \<Rightarrow> r
      | Some peer \<Rightarrow>
          (let user = peer_ref peer;
               stream = r_activeStreams r user;
               port = rl_ports (r_relay r) user;
               (r, queued) =
                 (case stream of
                    None \<Rightarrow> (r, False)
                  | Some pid \<Rightarrow> (on_sport pid (\<lambda>p. fst (enqueueReady p packet)) r, snd (enqueueReady (sport r pid) packet)))
           in if queued then r
              else case port of
                     None \<Rightarrow> r
                   | Some pid \<Rightarrow> r\<lparr>r_relay := on_port pid (\<lambda>p. fst (port_enqueue p packet)) (r_relay r)\<rparr>))"

text \<open>The loop on what \<open>ReadPacket\<close> returns: packets, until its first error.\<close>

fun readTUNLoop :: "bytes option list \<Rightarrow> ('ss, 'rs) rt \<Rightarrow> ('ss, 'rs) rt" where
  "readTUNLoop [] r = r"
| "readTUNLoop (Some packet # rs) r = readTUNLoop rs (readTUNPacket packet r)"
| "readTUNLoop (None # rs) r = r"


section \<open>A stream is set up and torn down\<close>

text \<open>The first critical section of \<open>runStream\<close>: the new port takes the peer's place in
  \<open>streamPorts\<close> and the one it replaces is closed.\<close>

definition installPort :: "('ss, 'rs) stream_sdk \<Rightarrow> user_ref \<Rightarrow> stream_id \<Rightarrow> ('ss, 'rs) rt \<Rightarrow> ('ss, 'rs) rt \<times> nat" where
  "installPort sdk target sid r =
     (let pid = r_nextPort r;
          port = new_port target sid (sdk_newSender sdk sid 1 (streamWindow sdk r))
                   (nat (tr_SendQueueSize (cfg_Transport (r_cfg r))));
          old = r_streamPorts r target;
          r = r\<lparr>r_sports := (r_sports r)(pid \<mapsto> port), r_nextPort := Suc pid,
                r_streamPorts := (r_streamPorts r)(target \<mapsto> pid)\<rparr>
      in (case old of None \<Rightarrow> r | Some o' \<Rightarrow> on_sport o' sp_close r, pid))"

text \<open>The deferred function of \<open>runStream\<close>.\<close>

definition removePort :: "user_ref \<Rightarrow> nat \<Rightarrow> bool \<Rightarrow> ('ss, 'rs) rt \<Rightarrow> ('ss, 'rs) rt" where
  "removePort target pid active r =
     (let r = (if active then deactivateStream target pid r else r);
          r = (if r_streamPorts r target = Some pid
               then r\<lparr>r_streamPorts := (r_streamPorts r)(target := None)\<rparr> else r)
      in on_sport pid sp_close r)"

text \<open>The critical section of \<open>runStream\<close> when no candidate could be opened.\<close>

definition forgetPreferred :: "user_ref \<Rightarrow> session_ref \<Rightarrow> ('ss, 'rs) rt \<Rightarrow> ('ss, 'rs) rt" where
  "forgetPreferred target session r =
     (if r_preferredStreams r target = Some session
      then r\<lparr>r_preferredStreams := (r_preferredStreams r)(target := None)\<rparr> else r)"

definition newRuntime :: "config \<Rightarrow> route list \<Rightarrow> user_ref \<Rightarrow> ('ss, 'rs) rt" where
  "newRuntime cfg routes localUser =
     \<lparr>r_cfg = cfg, r_routes = routes, r_relay = relay_start, r_activeStreams = Map.empty,
      r_streamPorts = Map.empty, r_streamRecv = Map.empty, r_preferredStreams = Map.empty,
      r_sports = Map.empty, r_nextPort = 0, r_recvs = Map.empty, r_nextRecv = 0, r_localUser = localUser,
      r_connected = False, r_sent = [], r_written = []\<rparr>"

section \<open>The runtime as a machine\<close>

text \<open>
  What can happen to the runtime: a callback of the SDK, a packet from the TUN device, a relay
  connection that comes or goes, a peer's lifecycle installing, removing, activating or
  deactivating its stream, sending a frame or dropping a preferred session, any operation of
  another goroutine on a port, a turn of an acknowledgement writer. The argument of \<open>disconnect\<close> lists \<open>streamPorts\<close> in any order.
\<close>

inductive runtime_step :: "('ss, 'rs) stream_sdk \<Rightarrow> ('ss, 'rs) rt \<Rightarrow> ('ss, 'rs) rt \<Rightarrow> bool" for sdk where
  stream: "runtime_step sdk r (OnStream sdk packet frame r)"
| send_result: "runtime_step sdk r (OnStreamSendResult result r)"
| disconnect: "set items = {(u, pid). r_streamPorts r u = Some pid} \<Longrightarrow> runtime_step sdk r (OnDisconnect err items r)"
| tun: "runtime_step sdk r (readTUNPacket packet r)"
| relay: "relay_step (r_relay r) s \<Longrightarrow> runtime_step sdk r (r\<lparr>r_relay := s\<rparr>)"
| install: "runtime_step sdk r (fst (installPort sdk target sid r))"
| remove: "runtime_step sdk r (removePort target pid active r)"
| activate: "r_sports r pid \<noteq> None \<Longrightarrow> runtime_step sdk r (activateStream target pid r)"
| deactivate: "runtime_step sdk r (deactivateStream target pid r)"
| port: "runtime_step sdk r (on_sport pid (port_do (sdk_sender sdk) ev) r)"
| ack_turn: "runtime_step sdk r (on_recv rid ackLoop r)"
| ack_ctx: "runtime_step sdk r (on_recv rid ack_ctx_done r)"
| send: "runtime_step sdk r (sendStreamFrame user session frame r)"
| forget: "runtime_step sdk r (forgetPreferred target session r)"

inductive_cases runtime_stepE: "runtime_step sdk r t"

text \<open>
  Ports and receivers keep their own invariants, the tables point to existing ones, every receiver
  in the table is live, is under one stream ID only, and no peer has two.
\<close>

definition ports_ok :: "('ss, 'rs) rt \<Rightarrow> bool" where
  "ports_ok r \<longleftrightarrow>
     (\<forall>pid p. r_sports r pid = Some p \<longrightarrow> port_inv p \<and> pid < r_nextPort r) \<and>
     (\<forall>u pid. r_streamPorts r u = Some pid \<longrightarrow> r_sports r pid \<noteq> None) \<and>
     (\<forall>u pid. r_activeStreams r u = Some pid \<longrightarrow> r_sports r pid \<noteq> None)"

definition recvs_ok :: "('ss, 'rs) rt \<Rightarrow> bool" where
  "recvs_ok r \<longleftrightarrow>
     (\<forall>rid rv. r_recvs r rid = Some rv \<longrightarrow> recv_inv rv \<and> rid < r_nextRecv r) \<and>
     (\<forall>i rid. r_streamRecv r i = Some rid \<longrightarrow> (\<exists>rv. r_recvs r rid = Some rv \<and> \<not> rv_ackStopped rv)) \<and>
     (\<forall>i j a b. r_streamRecv r i = Some a \<longrightarrow> r_streamRecv r j = Some b \<longrightarrow>
        rv_peer (receiver r a) = rv_peer (receiver r b) \<longrightarrow> i = j)"

definition runtime_inv :: "('ss, 'rs) rt \<Rightarrow> bool" where
  "runtime_inv r \<longleftrightarrow> relay_inv (r_relay r) \<and> ports_ok r \<and> recvs_ok r"

text \<open>Which parts of the state the helpers leave alone.\<close>

lemma frames [simp]:
  "r_relay (on_sport pid f r) = r_relay r" "r_relay (on_recv rid g r) = r_relay r"
  "r_relay (sendStreamFrame u s fr r) = r_relay r" "r_relay (WritePacket w r) = r_relay r"
  "r_recvs (on_sport pid f r) = r_recvs r" "r_streamRecv (on_sport pid f r) = r_streamRecv r"
  "r_nextRecv (on_sport pid f r) = r_nextRecv r" "r_streamRecv (on_recv rid g r) = r_streamRecv r"
  "r_nextRecv (on_recv rid g r) = r_nextRecv r"
  "r_sports (on_recv rid g r) = r_sports r" "r_streamPorts (on_recv rid g r) = r_streamPorts r"
  "r_nextPort (on_recv rid g r) = r_nextPort r" "r_activeStreams (on_recv rid g r) = r_activeStreams r"
  "r_streamPorts (on_sport pid f r) = r_streamPorts r" "r_nextPort (on_sport pid f r) = r_nextPort r"
  "r_activeStreams (on_sport pid f r) = r_activeStreams r"
  "r_preferredStreams (on_sport pid f r) = r_preferredStreams r"
  "r_preferredStreams (on_recv rid g r) = r_preferredStreams r"
  by (simp_all add: on_sport_def on_recv_def sendStreamFrame_def WritePacket_def)

text \<open>A state that agrees on the tables of ports (of receivers) agrees on their invariant.\<close>

lemma ports_ok_cong:
  "r_sports t = r_sports r \<Longrightarrow> r_nextPort t = r_nextPort r \<Longrightarrow> r_streamPorts t = r_streamPorts r \<Longrightarrow>
   r_activeStreams t = r_activeStreams r \<Longrightarrow> ports_ok t = ports_ok r"
  by (simp add: ports_ok_def)

lemma recvs_ok_cong:
  "r_recvs t = r_recvs r \<Longrightarrow> r_nextRecv t = r_nextRecv r \<Longrightarrow> r_streamRecv t = r_streamRecv r \<Longrightarrow> recvs_ok t = recvs_ok r"
  by (simp add: recvs_ok_def)

lemma ports_ok_on_sport:
  "ports_ok r \<Longrightarrow> (\<And>p. port_inv p \<Longrightarrow> port_inv (f p)) \<Longrightarrow> ports_ok (on_sport pid f r)"
  by (auto simp: ports_ok_def on_sport_def)

lemma recvs_ok_live:
  "recvs_ok r \<Longrightarrow> r_streamRecv r i = Some rid \<Longrightarrow> \<exists>rv. r_recvs r rid = Some rv \<and> \<not> rv_ackStopped rv \<and> recv_inv rv \<and> rid < r_nextRecv r"
  unfolding recvs_ok_def by blast

lemma recvs_ok_peer:
  "recvs_ok r \<Longrightarrow> r_streamRecv r i = Some a \<Longrightarrow> r_streamRecv r j = Some b \<Longrightarrow>
   rv_peer (receiver r a) = rv_peer (receiver r b) \<Longrightarrow> i = j"
  unfolding recvs_ok_def by blast

lemma recvs_okI:
  assumes "\<And>rid rv. r_recvs r rid = Some rv \<Longrightarrow> recv_inv rv \<and> rid < r_nextRecv r"
    "\<And>i rid. r_streamRecv r i = Some rid \<Longrightarrow> \<exists>rv. r_recvs r rid = Some rv \<and> \<not> rv_ackStopped rv"
    "\<And>i j a b. r_streamRecv r i = Some a \<Longrightarrow> r_streamRecv r j = Some b \<Longrightarrow>
       rv_peer (receiver r a) = rv_peer (receiver r b) \<Longrightarrow> i = j"
  shows "recvs_ok r"
  using assms unfolding recvs_ok_def by blast

lemma recvs_ok_heap: "recvs_ok r \<Longrightarrow> r_recvs r rid = Some rv \<Longrightarrow> recv_inv rv \<and> rid < r_nextRecv r"
  unfolding recvs_ok_def by blast

lemma recvs_ok_on_recv:
  assumes "recvs_ok r" "\<And>v. recv_inv v \<Longrightarrow> recv_inv (f v)"
    "\<And>v. rv_peer (f v) = rv_peer v" "\<And>v. rv_ackStopped (f v) = rv_ackStopped v"
  shows "recvs_ok (on_recv rid f r)"
proof -
  have peer: "rv_peer (receiver (on_recv rid f r) x) = rv_peer (receiver r x)" if "r_streamRecv r i = Some x" for i x
    using recvs_ok_live [OF assms(1) that] assms(3) by (auto simp: on_recv_def)
  show ?thesis
  proof (rule recvs_okI)
    fix x rv assume "r_recvs (on_recv rid f r) x = Some rv"
    then obtain rv0 where "r_recvs r x = Some rv0" "rv = (if x = rid then f rv0 else rv0)"
      by (auto simp: on_recv_def split: if_splits)
    with recvs_ok_heap [OF assms(1)] assms(2) show "recv_inv rv \<and> x < r_nextRecv (on_recv rid f r)" by auto
  next
    fix i x assume "r_streamRecv (on_recv rid f r) i = Some x"
    with recvs_ok_live [OF assms(1), of i x] assms(4)
    show "\<exists>rv. r_recvs (on_recv rid f r) x = Some rv \<and> \<not> rv_ackStopped rv" by (auto simp: on_recv_def)
  next
    fix i j a b
    assume "r_streamRecv (on_recv rid f r) i = Some a" "r_streamRecv (on_recv rid f r) j = Some b"
      "rv_peer (receiver (on_recv rid f r) a) = rv_peer (receiver (on_recv rid f r) b)"
    then show "i = j" using peer recvs_ok_peer [OF assms(1), of i a j b] by simp
  qed
qed


section \<open>Receivers\<close>

lemma replaced_iff:
  assumes "recvs_ok r"
  shows "replaced sender sid r i \<longleftrightarrow>
    i \<noteq> sid \<and> (\<exists>rid rv. r_streamRecv r i = Some rid \<and> r_recvs r rid = Some rv \<and> rv_peer rv = sender)"
  using recvs_ok_live [OF assms] by (fastforce simp: replaced_def split: option.splits)

lemma stopAcks_peer [simp]: "rv_peer (stopAcks v) = rv_peer v"
  by (simp add: recv_defs)

lemma replaceReceivers_keeps:
  assumes "recvs_ok r" "r_streamRecv (replaceReceivers sender sid r) i = Some rid"
  shows "r_streamRecv r i = Some rid" "r_recvs (replaceReceivers sender sid r) rid = r_recvs r rid"
    "i = sid \<or> rv_peer (receiver r rid) \<noteq> sender"
proof -
  from assms(2) have i: "r_streamRecv r i = Some rid" "\<not> replaced sender sid r i"
    by (auto simp: replaceReceivers_def split: if_splits)
  then show "r_streamRecv r i = Some rid" by blast
  have "\<not> (replaced sender sid r j \<and> r_streamRecv r j = Some rid)" for j
    using recvs_ok_peer [OF assms(1) i(1), of j rid] i by auto
  then show "r_recvs (replaceReceivers sender sid r) rid = r_recvs r rid"
    by (auto simp: replaceReceivers_def)
  show "i = sid \<or> rv_peer (receiver r rid) \<noteq> sender" using i by (auto simp: replaced_def)
qed

lemma recvs_ok_replace:
  assumes "recvs_ok r" shows "recvs_ok (replaceReceivers sender sid r)"
proof (rule recvs_okI)
  fix rid rv assume "r_recvs (replaceReceivers sender sid r) rid = Some rv"
  then obtain rv0 where "r_recvs r rid = Some rv0" "rv = rv0 \<or> rv = stopAcks rv0"
    by (auto simp: replaceReceivers_def split: if_splits)
  with recvs_ok_heap [OF assms, of rid rv0] recv_inv_do [of rv0 RvStop]
  show "recv_inv rv \<and> rid < r_nextRecv (replaceReceivers sender sid r)"
    by (auto simp: replaceReceivers_def)
next
  fix i rid assume i: "r_streamRecv (replaceReceivers sender sid r) i = Some rid"
  show "\<exists>rv. r_recvs (replaceReceivers sender sid r) rid = Some rv \<and> \<not> rv_ackStopped rv"
    using recvs_ok_live [OF assms replaceReceivers_keeps(1) [OF assms i]] replaceReceivers_keeps(2) [OF assms i] by auto
next
  fix i j a b
  assume i: "r_streamRecv (replaceReceivers sender sid r) i = Some a"
    and j: "r_streamRecv (replaceReceivers sender sid r) j = Some b"
    and "rv_peer (receiver (replaceReceivers sender sid r) a) = rv_peer (receiver (replaceReceivers sender sid r) b)"
  then show "i = j"
    using replaceReceivers_keeps(1,2) [OF assms i] replaceReceivers_keeps(1,2) [OF assms j]
      recvs_ok_peer [OF assms, of i a j b] by simp
qed

lemma recv_inv_setSession: "recv_inv v \<Longrightarrow> recv_inv (setSession z s v)"
  using recv_inv_do [of v "RvSession z s"] by simp

lemma setSession_simps [simp]:
  "rv_peer (setSession z s v) = rv_peer v" "rv_ackStopped (setSession z s v) = rv_ackStopped v"
  by (simp_all add: setSession_def)

lemma queueAck_simps [simp]:
  "rv_peer (queueAck a v) = rv_peer v" "rv_ackStopped (queueAck a v) = rv_ackStopped v"
  "rv_targetSession (queueAck a v) = rv_targetSession v"
  by (simp_all add: recv_defs)

lemma recv_inv_simps:
  "recv_inv v \<Longrightarrow> recv_inv (queueAck a v)" "recv_inv v \<Longrightarrow> recv_inv (dropPendingAck v)"
  "recv_inv v \<Longrightarrow> recv_inv (stopAcks v)" "recv_inv v \<Longrightarrow> recv_inv (v\<lparr>rv_state := st\<rparr>)"
  using recv_inv_do [of v "RvQueue a"] recv_inv_do [of v RvDrop] recv_inv_do [of v RvStop]
  by (simp_all add: recv_inv_def)

lemma recvs_ok_open:
  assumes "recvs_ok r"
    and other: "\<And>i rid. r_streamRecv r i = Some rid \<Longrightarrow> i = fr_ID frame \<or> rv_peer (receiver r rid) \<noteq> pk_Sender packet"
  shows "recvs_ok (openReceiver sdk packet frame r)"
proof (cases "r_streamRecv r (fr_ID frame)")
  case None
  let ?t = "openReceiver sdk packet frame r"
  have ne: "rid \<noteq> r_nextRecv r" if "r_recvs r rid \<noteq> None" for rid
    using recvs_ok_heap [OF assms(1), of "r_nextRecv r"] that by auto
  then have old: "r_recvs ?t rid = r_recvs r rid" "rid \<noteq> r_nextRecv r" if "r_recvs r rid \<noteq> None" for rid
    using that None by (simp_all add: openReceiver_def Let_def)
  have new: "r_streamRecv ?t (fr_ID frame) = Some (r_nextRecv r)"
    "r_recvs ?t (r_nextRecv r) = Some (new_receiver (pk_Sender packet) (pk_TargetSession packet)
       (receiver_New (sdk_receiver sdk) (fr_ID frame) (fr_Epoch frame) (fr_Window frame)))"
    using None by (simp_all add: openReceiver_def Let_def)
  have i: "i = fr_ID frame \<and> rid = r_nextRecv r \<or> i \<noteq> fr_ID frame \<and> r_streamRecv r i = Some rid"
    if "r_streamRecv ?t i = Some rid" for i rid
    using that None by (auto simp: openReceiver_def Let_def split: if_splits)
  show ?thesis
  proof (rule recvs_okI)
    fix rid rv assume "r_recvs ?t rid = Some rv"
    then show "recv_inv rv \<and> rid < r_nextRecv ?t"
      using None recvs_ok_heap [OF assms(1), of rid rv]
      by (auto simp: openReceiver_def Let_def recv_inv_new split: if_splits)
  next
    fix j rid assume "r_streamRecv ?t j = Some rid"
    then show "\<exists>rv. r_recvs ?t rid = Some rv \<and> \<not> rv_ackStopped rv"
      using i [of j rid] new recvs_ok_live [OF assms(1), of j rid] old [of rid]
      by (auto simp: new_receiver_def)
  next
    fix j k a b
    assume j: "r_streamRecv ?t j = Some a" and k: "r_streamRecv ?t k = Some b"
      and p: "rv_peer (receiver ?t a) = rv_peer (receiver ?t b)"
    have peer: "rv_peer (receiver ?t x) = (if l = fr_ID frame then pk_Sender packet else rv_peer (receiver r x))"
      if "r_streamRecv ?t l = Some x" for l x
      using i [OF that] new(2) old [of x] recvs_ok_live [OF assms(1), of l x] by (auto simp: new_receiver_def)
    from i [OF j] i [OF k] peer [OF j] peer [OF k] p other [of j a] other [of k b]
      recvs_ok_peer [OF assms(1), of j a k b]
    show "j = k" by (auto split: if_splits)
  qed
next
  case (Some rid)
  have "recvs_ok (on_recv rid (setSession (sdk_isZero sdk) (pk_TargetSession packet)) r)"
    by (rule recvs_ok_on_recv [OF assms(1)]) (simp_all add: recv_inv_setSession)
  with Some show ?thesis by (simp add: openReceiver_def)
qed

lemma preferSession_frames [simp]:
  "r_relay (preferSession u s r) = r_relay r" "r_recvs (preferSession u s r) = r_recvs r"
  "r_streamRecv (preferSession u s r) = r_streamRecv r" "r_nextRecv (preferSession u s r) = r_nextRecv r"
  "r_sports (preferSession u s r) = r_sports r" "r_nextPort (preferSession u s r) = r_nextPort r"
  "r_streamPorts (preferSession u s r) = r_streamPorts r" "r_activeStreams (preferSession u s r) = r_activeStreams r"
  by (simp_all add: preferSession_def)

lemma send_frames [simp]:
  "r_recvs (sendStreamFrame u s f r) = r_recvs r" "r_streamRecv (sendStreamFrame u s f r) = r_streamRecv r"
  "r_nextRecv (sendStreamFrame u s f r) = r_nextRecv r" "r_sports (sendStreamFrame u s f r) = r_sports r"
  "r_nextPort (sendStreamFrame u s f r) = r_nextPort r" "r_streamPorts (sendStreamFrame u s f r) = r_streamPorts r"
  "r_activeStreams (sendStreamFrame u s f r) = r_activeStreams r"
  by (simp_all add: sendStreamFrame_def)

lemma replace_frames [simp]:
  "r_relay (replaceReceivers u i r) = r_relay r" "r_sports (replaceReceivers u i r) = r_sports r"
  "r_nextPort (replaceReceivers u i r) = r_nextPort r" "r_streamPorts (replaceReceivers u i r) = r_streamPorts r"
  "r_activeStreams (replaceReceivers u i r) = r_activeStreams r"
  by (simp_all add: replaceReceivers_def)

lemma openReceiver_frames [simp]:
  "r_relay (openReceiver sdk pk fr r) = r_relay r" "r_sports (openReceiver sdk pk fr r) = r_sports r"
  "r_nextPort (openReceiver sdk pk fr r) = r_nextPort r" "r_streamPorts (openReceiver sdk pk fr r) = r_streamPorts r"
  "r_activeStreams (openReceiver sdk pk fr r) = r_activeStreams r"
  by (auto simp: openReceiver_def Let_def split: option.splits)

lemma deactivateINR_frames [simp]:
  "r_relay (deactivateStreamIfNotReady u pid r) = r_relay r" "r_recvs (deactivateStreamIfNotReady u pid r) = r_recvs r"
  "r_streamRecv (deactivateStreamIfNotReady u pid r) = r_streamRecv r"
  "r_nextRecv (deactivateStreamIfNotReady u pid r) = r_nextRecv r"
  "r_sports (deactivateStreamIfNotReady u pid r) = r_sports r"
  "r_nextPort (deactivateStreamIfNotReady u pid r) = r_nextPort r"
  "r_streamPorts (deactivateStreamIfNotReady u pid r) = r_streamPorts r"
  "r_preferredStreams (deactivateStreamIfNotReady u pid r) = r_preferredStreams r"
  by (simp_all add: deactivateStreamIfNotReady_def)


section \<open>Every step keeps the invariant\<close>

lemma writePayload_frames:
  "\<exists>w. writePayload payload r = r\<lparr>r_written := w\<rparr>"
proof -
  have "\<exists>w. fold WritePacket packets r = r\<lparr>r_written := w\<rparr>" for packets and r :: "('a, 'b) runtime"
  proof (induction packets arbitrary: r)
    case Nil
    have "r = r\<lparr>r_written := r_written r\<rparr>" by simp
    then show ?case by (simp only: fold_Nil id_apply) blast
  next
    case (Cons p ps)
    from Cons.IH [of "WritePacket p r"] show ?case by (auto simp: WritePacket_def)
  qed
  then show ?thesis by (auto simp: writePayload_def WritePacket_def split: prod.splits)
qed

lemma ports_ok_activeI:
  "ports_ok r \<Longrightarrow> r_sports t = r_sports r \<Longrightarrow> r_nextPort t = r_nextPort r \<Longrightarrow> r_streamPorts t = r_streamPorts r \<Longrightarrow>
   (\<And>u. r_activeStreams t u = r_activeStreams r u \<or> r_activeStreams t u = None) \<Longrightarrow> ports_ok t"
  unfolding ports_ok_def by (metis option.distinct(1))

lemma ports_ok_deactivateINR: "ports_ok r \<Longrightarrow> ports_ok (deactivateStreamIfNotReady u pid r)"
  by (erule ports_ok_activeI) (auto simp: deactivateStreamIfNotReady_def)

lemma ports_ok_OnOpen: "ports_ok r \<Longrightarrow> ports_ok (OnOpen sdk packet frame r)"
proof -
  assume ok: "ports_ok r"
  let ?r1 = "openReceiver sdk packet frame (replaceReceivers (pk_Sender packet) (fr_ID frame) r)"
  let ?r2 = "preferSession (pk_Sender packet) (pk_TargetSession packet) ?r1"
  have r1: "ports_ok ?r1" using ok ports_ok_cong [of ?r1 r] by simp
  then have r2: "ports_ok ?r2" using ports_ok_cong [of ?r2 ?r1] by simp
  have r3: "ports_ok (on_sport pid (\<lambda>p. fst (requestRestart (pk_TargetSession packet) p)) ?r2)" for pid
    by (rule ports_ok_on_sport [OF r2]) (rule port_inv_restart)
  have send: "ports_ok (sendStreamFrame u s f t) = ports_ok t" for u s f and t :: "('a, 'b) runtime"
    by (rule ports_ok_cong) simp_all
  show ?thesis
    using r1 r2 r3 by (auto simp: OnOpen_def send Let_def split: option.splits)
qed

lemma recvs_ok_OnOpen:
  assumes "recvs_ok r" shows "recvs_ok (OnOpen sdk packet frame r)"
proof -
  let ?r0 = "replaceReceivers (pk_Sender packet) (fr_ID frame) r"
  let ?r1 = "openReceiver sdk packet frame ?r0"
  have r1: "recvs_ok ?r1"
  proof (rule recvs_ok_open [OF recvs_ok_replace [OF assms]])
    fix i rid assume i: "r_streamRecv ?r0 i = Some rid"
    show "i = fr_ID frame \<or> rv_peer (receiver ?r0 rid) \<noteq> pk_Sender packet"
      using replaceReceivers_keeps(2,3) [OF assms i] by simp
  qed
  have "recvs_ok (OnOpen sdk packet frame r) = recvs_ok ?r1"
    by (rule recvs_ok_cong) (auto simp: OnOpen_def Let_def split: option.splits)
  with r1 show ?thesis by blast
qed

lemma ports_ok_recv_side:
  "ports_ok r \<Longrightarrow> ports_ok (on_recv rid f r)" "ports_ok r \<Longrightarrow> ports_ok (sendStreamFrame u s fr r)"
  "ports_ok r \<Longrightarrow> ports_ok (preferSession u s r)" "ports_ok r \<Longrightarrow> ports_ok (writePayload payload r)"
  using ports_ok_cong [of "on_recv rid f r" r] ports_ok_cong [of "sendStreamFrame u s fr r" r]
    ports_ok_cong [of "preferSession u s r" r] writePayload_frames [of payload r]
  by (auto simp: ports_ok_def)

lemma recvs_ok_port_side:
  "recvs_ok r \<Longrightarrow> recvs_ok (on_sport pid g r)" "recvs_ok r \<Longrightarrow> recvs_ok (sendStreamFrame u s fr r)"
  "recvs_ok r \<Longrightarrow> recvs_ok (preferSession u s r)" "recvs_ok r \<Longrightarrow> recvs_ok (writePayload payload r)"
  "recvs_ok r \<Longrightarrow> recvs_ok (deactivateStreamIfNotReady u pid r)"
  using recvs_ok_cong [of "on_sport pid g r" r] recvs_ok_cong [of "sendStreamFrame u s fr r" r]
    recvs_ok_cong [of "preferSession u s r" r] recvs_ok_cong [of "deactivateStreamIfNotReady u pid r" r]
    writePayload_frames [of payload r]
  by (auto simp: recvs_ok_def)

lemma recv_op_frames [simp]:
  "rv_peer (ackLoop v) = rv_peer v" "rv_ackStopped (ackLoop v) = rv_ackStopped v"
  "rv_peer (ack_ctx_done v) = rv_peer v" "rv_ackStopped (ack_ctx_done v) = rv_ackStopped v"
  "rv_peer (dropPendingAck v) = rv_peer v" "rv_ackStopped (dropPendingAck v) = rv_ackStopped v"
  by (auto simp: recv_defs split: ack_pc.splits option.splits)

lemma recvs_ok_recv_ops:
  assumes "recvs_ok r"
  shows "recvs_ok (on_recv rid (\<lambda>rv. rv\<lparr>rv_state := st\<rparr>) r)" "recvs_ok (on_recv rid (queueAck a) r)"
    "recvs_ok (on_recv rid (setSession z s) r)" "recvs_ok (on_recv rid dropPendingAck r)"
    "recvs_ok (on_recv rid ackLoop r)" "recvs_ok (on_recv rid ack_ctx_done r)"
  using recv_inv_do [of _ RvTurn] recv_inv_do [of _ RvCtxDone]
  by (auto intro!: recvs_ok_on_recv [OF assms] simp: recv_inv_simps recv_inv_setSession)

lemma ok_OnData:
  "ports_ok r \<Longrightarrow> ports_ok (OnData sdk packet frame r)" "recvs_ok r \<Longrightarrow> recvs_ok (OnData sdk packet frame r)"
  by (auto simp: OnData_def Let_def ports_ok_recv_side recvs_ok_port_side recvs_ok_recv_ops
      split: option.splits prod.splits)

lemma port_inv_ops_fst:
  "port_inv p \<Longrightarrow> port_inv (fst (acceptOpenAck s e p))" "port_inv p \<Longrightarrow> port_inv (fst (failPath s e err p))"
  "port_inv p \<Longrightarrow> port_inv (markPathLostWithError er p)" "port_inv p \<Longrightarrow> port_inv (fst (enqueueReady p packet))"
  by (rule port_inv_ops port_inv_fail; assumption)+

lemma ok_OnOpenAck:
  "ports_ok r \<Longrightarrow> ports_ok (OnOpenAck packet frame r)" "recvs_ok r \<Longrightarrow> recvs_ok (OnOpenAck packet frame r)"
  by (auto simp: OnOpenAck_def recvs_ok_port_side intro!: ports_ok_on_sport port_inv_ops_fst split: option.splits)

lemma ok_OnAck:
  "ports_ok r \<Longrightarrow> ports_ok (OnAck sdk packet frame r)" "recvs_ok r \<Longrightarrow> recvs_ok (OnAck sdk packet frame r)"
  by (auto simp: OnAck_def recvs_ok_port_side intro!: ports_ok_on_sport port_inv_ack split: option.splits)

lemma ports_ok_mark: "ports_ok r \<Longrightarrow> ports_ok (on_sport pid (markPathLostWithError err) r)"
  by (erule ports_ok_on_sport) (rule port_inv_ops_fst)

lemma ok_OnResume:
  "ports_ok r \<Longrightarrow> ports_ok (OnResume sdk packet frame r)" "recvs_ok r \<Longrightarrow> recvs_ok (OnResume sdk packet frame r)"
  by (auto simp: OnResume_def Let_def ports_ok_recv_side recvs_ok_port_side recvs_ok_recv_ops ports_ok_mark
      ports_ok_deactivateINR split: option.splits prod.splits)


lemma ports_ok_OnClose: "ports_ok r \<Longrightarrow> ports_ok (OnClose frame r)"
  by (auto simp: OnClose_def Let_def ports_ok_def split: option.splits)

lemma recvs_ok_OnClose:
  assumes "recvs_ok r" shows "recvs_ok (OnClose frame r)"
proof (cases "r_streamRecv r (fr_ID frame)")
  case None
  then have "r_streamRecv (OnClose frame r) = r_streamRecv r" "r_recvs (OnClose frame r) = r_recvs r"
    "r_nextRecv (OnClose frame r) = r_nextRecv r" by (auto simp: OnClose_def Let_def)
  then show ?thesis using recvs_ok_cong [of "OnClose frame r" r] assms by simp
next
  case (Some rid)
  let ?t = "OnClose frame r"
  have t: "r_streamRecv ?t = (r_streamRecv r)(fr_ID frame := None)" "r_nextRecv ?t = r_nextRecv r"
    "r_recvs ?t = (r_recvs r)(rid := map_option stopAcks (r_recvs r rid))"
    using Some by (simp_all add: OnClose_def Let_def on_recv_def)
  have kept: "r_recvs ?t x = r_recvs r x \<and> r_streamRecv r i = Some x" if "r_streamRecv ?t i = Some x" for i x
    using that t recvs_ok_peer [OF assms _ Some, of i x] by (auto split: if_splits)
  show ?thesis
  proof (rule recvs_okI)
    fix x rv assume "r_recvs ?t x = Some rv"
    then show "recv_inv rv \<and> x < r_nextRecv ?t"
      using recvs_ok_heap [OF assms, of x] by (auto simp: t recv_inv_simps split: if_splits)
  next
    fix i x assume "r_streamRecv ?t i = Some x"
    then show "\<exists>rv. r_recvs ?t x = Some rv \<and> \<not> rv_ackStopped rv"
      using kept recvs_ok_live [OF assms] by metis
  next
    fix i j a b assume i: "r_streamRecv ?t i = Some a" and j: "r_streamRecv ?t j = Some b"
      and "rv_peer (receiver ?t a) = rv_peer (receiver ?t b)"
    then show "i = j" using kept [OF i] kept [OF j] recvs_ok_peer [OF assms, of i a j b] by simp
  qed
qed

lemma ok_OnStream:
  "ports_ok r \<Longrightarrow> ports_ok (OnStream sdk packet frame r)" "recvs_ok r \<Longrightarrow> recvs_ok (OnStream sdk packet frame r)"
  by (cases "fr_Kind frame"; simp add: OnStream_def ports_ok_OnOpen recvs_ok_OnOpen ok_OnOpenAck ok_OnData
      ok_OnAck ok_OnResume ports_ok_OnClose recvs_ok_OnClose)+

lemma relay_OnStream [simp]: "r_relay (OnStream sdk packet frame r) = r_relay r"
proof -
  have w: "r_relay (writePayload p t) = r_relay t" for p and t :: "('a, 'b) runtime"
    using writePayload_frames [of p t] by auto
  show ?thesis
    by (cases "fr_Kind frame")
       (auto simp: OnStream_def OnOpen_def OnOpenAck_def OnData_def OnAck_def OnResume_def OnClose_def Let_def w
         split: option.splits prod.splits)
qed

lemma ok_OnStreamSendResult:
  "ports_ok r \<Longrightarrow> ports_ok (OnStreamSendResult result r)" "recvs_ok r \<Longrightarrow> recvs_ok (OnStreamSendResult result r)"
proof -
  let ?f = "\<lambda>e p. fst (failPath (sr_TargetSession result) (sr_Epoch result) e p)"
  let ?d = "\<lambda>e pid. deactivateStreamIfNotReady (sr_Target result) pid (on_sport pid (?f e) r)"
  have cong: "ports_ok (t\<lparr>r_preferredStreams := m\<rparr>) = ports_ok t" "recvs_ok (t\<lparr>r_preferredStreams := m\<rparr>) = recvs_ok t"
    for m and t :: "('a, 'b) runtime" by (simp_all add: ports_ok_def recvs_ok_def)
  show "ports_ok (OnStreamSendResult result r)" if "ports_ok r"
  proof -
    have "ports_ok (?d e pid)" for e pid
      by (intro ports_ok_deactivateINR ports_ok_on_sport [OF that] port_inv_ops_fst)
    then show ?thesis using that by (auto simp: OnStreamSendResult_def Let_def cong split: option.splits)
  qed
  show "recvs_ok (OnStreamSendResult result r)" if "recvs_ok r"
    using that by (auto simp: OnStreamSendResult_def Let_def cong recvs_ok_port_side split: option.splits)
qed

lemma relay_OnStreamSendResult [simp]: "r_relay (OnStreamSendResult result r) = r_relay r"
  by (auto simp: OnStreamSendResult_def Let_def split: option.splits)

lemma mark_all_inv:
  "runtime_inv r \<Longrightarrow> runtime_inv (markAllStreamPathsLost err items r)"
  unfolding markAllStreamPathsLost_def
proof (induction items arbitrary: r)
  case (Cons x items)
  have "runtime_inv (deactivateStreamIfNotReady (fst x) (snd x) (on_sport (snd x) (markPathLostWithError err) r))"
    using Cons.prems by (auto simp: runtime_inv_def ports_ok_mark ports_ok_deactivateINR recvs_ok_port_side)
  from Cons.IH [OF this] show ?case by (simp add: case_prod_beta)
qed simp

lemma readTUNPacket_inv: "runtime_inv r \<Longrightarrow> runtime_inv (readTUNPacket packet r)"
proof -
  assume inv: "runtime_inv r"
  have s: "runtime_inv (on_sport pid (\<lambda>p. fst (enqueueReady p packet)) r)" for pid
    using inv by (auto simp: runtime_inv_def recvs_ok_port_side intro!: ports_ok_on_sport port_inv_ops_fst)
  have q: "runtime_inv (t\<lparr>r_relay := on_port pid (\<lambda>p. fst (port_enqueue p packet)) (r_relay t)\<rparr>)"
    if "runtime_inv t" for pid t
    using that relay_step_inv [OF _ relay_step.send [where pid = pid and packet = packet], of "r_relay t"]
    by (auto simp: runtime_inv_def ports_ok_def recvs_ok_def)
  have sq: "runtime_inv (on_sport sid (\<lambda>p. fst (enqueueReady p packet)) r
      \<lparr>r_relay := on_port pid (\<lambda>p. fst (port_enqueue p packet)) (r_relay r)\<rparr>)" for sid pid
    using q [OF s] by simp
  show ?thesis
    using inv s q sq by (auto simp: readTUNPacket_def Let_def split: option.splits)
qed

lemma ports_ok_install: "ports_ok r \<Longrightarrow> ports_ok (fst (installPort sdk target sid r))"
proof -
  assume ok: "ports_ok r"
  define t where "t = r\<lparr>r_sports := (r_sports r)(r_nextPort r \<mapsto>
      new_port target sid (sdk_newSender sdk sid 1 (streamWindow sdk r)) (nat (tr_SendQueueSize (cfg_Transport (r_cfg r))))),
    r_nextPort := Suc (r_nextPort r), r_streamPorts := (r_streamPorts r)(target \<mapsto> r_nextPort r)\<rparr>"
  have "ports_ok t"
    using ok by (auto simp: t_def ports_ok_def port_inv_new less_Suc_eq)
  then have "ports_ok (on_sport p sp_close t)" for p by (rule ports_ok_on_sport) (rule port_inv_restart)
  with \<open>ports_ok t\<close> show ?thesis by (simp add: installPort_def Let_def t_def [symmetric] split: option.split)
qed

lemma ports_ok_remove: "ports_ok r \<Longrightarrow> ports_ok (removePort target pid active r)"
proof -
  assume ok: "ports_ok r"
  define t where "t = (if active then deactivateStream target pid r else r)"
  have t: "ports_ok t" by (rule ports_ok_activeI [OF ok]) (auto simp: t_def deactivateStream_def)
  define u where "u = (if r_streamPorts t target = Some pid then t\<lparr>r_streamPorts := (r_streamPorts t)(target := None)\<rparr> else t)"
  have "ports_ok u" using t by (auto simp: u_def ports_ok_def)
  then have "ports_ok (on_sport pid sp_close u)" by (rule ports_ok_on_sport) (rule port_inv_restart)
  then show ?thesis by (simp add: removePort_def Let_def t_def [symmetric] u_def [symmetric])
qed

lemma recvs_ok_lifecycle:
  assumes "recvs_ok r"
  shows "recvs_ok (fst (installPort sdk target sid r))" "recvs_ok (removePort target pid active r)"
    "recvs_ok (activateStream target pid r)" "recvs_ok (deactivateStream target pid r)"
  using assms
  by (auto simp: installPort_def removePort_def activateStream_def deactivateStream_def on_sport_def
      recvs_ok_def Let_def split: option.split)

lemma relay_lifecycle:
  "r_relay (fst (installPort sdk target sid r)) = r_relay r" "r_relay (removePort target pid active r) = r_relay r"
  "r_relay (activateStream target pid r) = r_relay r" "r_relay (deactivateStream target pid r) = r_relay r"
  by (auto simp: installPort_def removePort_def activateStream_def deactivateStream_def Let_def split: option.split)

lemma ports_ok_activate:
  "ports_ok r \<Longrightarrow> r_sports r pid \<noteq> None \<Longrightarrow> ports_ok (activateStream target pid r)"
  "ports_ok r \<Longrightarrow> ports_ok (deactivateStream target pid r)"
  by (auto simp: ports_ok_def activateStream_def deactivateStream_def)

lemma forgetPreferred_inv: "runtime_inv r \<Longrightarrow> runtime_inv (forgetPreferred target session r)"
  by (auto simp: runtime_inv_def forgetPreferred_def ports_ok_def recvs_ok_def)

lemma sendStreamFrame_inv: "runtime_inv r \<Longrightarrow> runtime_inv (sendStreamFrame u s f r)"
  by (auto simp: runtime_inv_def sendStreamFrame_def ports_ok_def recvs_ok_def)

lemma runtime_step_inv: "runtime_inv r \<Longrightarrow> runtime_step sdk r t \<Longrightarrow> runtime_inv t"
proof (erule runtime_stepE)
  fix s assume "runtime_inv r" "t = r\<lparr>r_relay := s\<rparr>" "relay_step (r_relay r) s"
  then show "runtime_inv t"
    using relay_step_inv [of "r_relay r" s] by (auto simp: runtime_inv_def ports_ok_def recvs_ok_def)
next
  fix pid ev assume "runtime_inv r" "t = on_sport pid (port_do (sdk_sender sdk) ev) r"
  then show "runtime_inv t"
    by (auto simp: runtime_inv_def recvs_ok_port_side intro!: ports_ok_on_sport port_inv_do)
qed (auto simp: OnDisconnect_def mark_all_inv readTUNPacket_inv forgetPreferred_inv sendStreamFrame_inv,
     auto simp: runtime_inv_def ok_OnStream ok_OnStreamSendResult ports_ok_install ports_ok_remove recvs_ok_lifecycle
       relay_lifecycle ports_ok_activate ports_ok_recv_side recvs_ok_recv_ops)

interpretation runtime: machine "\<lambda>r. \<exists>cfg routes u. r = newRuntime cfg routes u" "runtime_step sdk" runtime_inv for sdk
proof
  fix r :: "('a, 'b) runtime"
  assume "\<exists>cfg routes u. r = newRuntime cfg routes u"
  then show "runtime_inv r"
    by (auto simp: newRuntime_def runtime_inv_def relay_inv_start ports_ok_def recvs_ok_def)
next
  fix r t :: "('a, 'b) runtime"
  assume "runtime_inv r" "runtime_step sdk r t"
  then show "runtime_inv t" by (rule runtime_step_inv)
qed

text \<open>C7. Whatever the network, the TUN device and the peers' lifecycles do, and in whatever order:
  no channel of a stream port is closed twice, no peer ever has two stream receivers (an Open
  under a new stream ID replaces the old one), no receiver is in the table under two IDs, every
  receiver in the table can still send its acknowledgements, and every stream a packet may be
  routed into exists.\<close>

theorem one_live_receiver_per_peer:
  assumes "(runtime_step sdk)\<^sup>*\<^sup>* (newRuntime cfg routes localUser) r"
  shows "(\<forall>i j a b. r_streamRecv r i = Some a \<and> r_streamRecv r j = Some b \<and>
             rv_peer (receiver r a) = rv_peer (receiver r b) \<longrightarrow> i = j \<and> a = b) \<and>
         (\<forall>i a. r_streamRecv r i = Some a \<longrightarrow> (\<exists>v. r_recvs r a = Some v \<and> \<not> rv_ackStopped v)) \<and>
         (\<forall>user pid. r_activeStreams r user = Some pid \<longrightarrow> (\<exists>p. r_sports r pid = Some p \<and> \<not> sp_panicked p))"
proof -
  have inv: "runtime_inv r" by (rule runtime.run_inv [OF _ assms]) blast
  then have recvs: "recvs_ok r" and ports: "ports_ok r" by (auto simp: runtime_inv_def)
  have "\<exists>p. r_sports r pid = Some p \<and> \<not> sp_panicked p" if "r_activeStreams r user = Some pid" for user pid
    using ports that by (fastforce simp: ports_ok_def port_inv_def)
  moreover have "i = j \<and> a = b" if "r_streamRecv r i = Some a" "r_streamRecv r j = Some b"
    "rv_peer (receiver r a) = rv_peer (receiver r b)" for i j a b
    using recvs_ok_peer [OF recvs that] that by simp
  ultimately show ?thesis using recvs_ok_live [OF recvs] by blast
qed


text \<open>A small SDK for concrete runs: offsets are counted, data is accepted in order, and a session
  is zero when it is the zero value.\<close>

definition counting_receiver :: "u64 receiver_sdk" where
  "counting_receiver =
     \<lparr>receiver_New = (\<lambda>_ _ _. 0),
      receiver_Accept = (\<lambda>off frame.
        if fr_Offset frame = off
        then ((fr_Payload frame, zero_frame\<lparr>fr_Kind := KAck, fr_ID := fr_ID frame, fr_Epoch := fr_Epoch frame,
                fr_Offset := off + of_nat (length (fr_Payload frame))\<rparr>, None), off + of_nat (length (fr_Payload frame)))
        else (([], zero_frame, Some (StreamError ''gap'')), off)),
      receiver_Resume = (\<lambda>off epoch _. ((zero_frame\<lparr>fr_Kind := KAck, fr_Epoch := epoch, fr_Offset := off\<rparr>, None), off))\<rparr>"

definition counting_sdk :: "(u64, u64) stream_sdk" where
  "counting_sdk =
     \<lparr>sdk_sender = counting_sender, sdk_receiver = counting_receiver, sdk_isZero = (\<lambda>s. s = zero_session),
      sdk_newSender = (\<lambda>_ _ _. 0), sdk_maxFrame = 131072, sdk_defaultWindow = 2097152\<rparr>"

definition open_frame :: "stream_id \<Rightarrow> stream_frame" where
  "open_frame i = zero_frame\<lparr>fr_Kind := KOpen, fr_ID := i, fr_Epoch := 1\<rparr>"

lemmas open_as_defs = OnStream_def OnOpen_def openReceiver_def open_frame_def zero_frame_def counting_sdk_def
  counting_receiver_def replaceReceivers_def replaced_def preferSession_def sendStreamFrame_def zero_session_def Let_def

text \<open>A peer opens stream a, restarts and opens stream b: the receiver of a is gone.\<close>

theorem one_live_receiver_per_peer_witness:
  "(let packet = \<lparr>pk_Sender = UserRef 1 2, pk_TargetSession = SessionRef 1 ''s''\<rparr>;
        r = OnStream counting_sdk packet (open_frame ''b'')
              (OnStream counting_sdk packet (open_frame ''a'') (newRuntime example_config [] (UserRef 1 1)))
    in r_streamRecv r ''b'' = Some 1 \<and>
       \<not> (\<exists>a. r_streamRecv r ''a'' = Some a \<and> rv_peer (receiver r a) = UserRef 1 2))"
proof -
  let ?packet = "\<lparr>pk_Sender = UserRef 1 2, pk_TargetSession = SessionRef 1 ''s''\<rparr>"
  let ?start = "newRuntime example_config [] (UserRef 1 1)"
  let ?opened = "OnStream counting_sdk ?packet (open_frame ''a'') ?start"
  let ?final = "OnStream counting_sdk ?packet (open_frame ''b'') ?opened"
  have steps: "runtime_step counting_sdk ?start ?opened" "runtime_step counting_sdk ?opened ?final"
    by (rule runtime_step.stream)+
  have run: "(runtime_step counting_sdk)\<^sup>*\<^sup>* ?start ?final"
    using steps by (meson r_into_rtranclp rtranclp.rtrancl_into_rtrancl)
  have opened: "r_streamRecv ?opened = [''a'' \<mapsto> 0]" "r_nextRecv ?opened = 1" "r_streamPorts ?opened = Map.empty"
    "r_recvs ?opened = [0 \<mapsto> new_receiver (UserRef 1 2) (SessionRef 1 ''s'') 0]"
    by (simp_all add: open_as_defs newRuntime_def)
  have second: "r_streamRecv (OnStream counting_sdk ?packet (open_frame ''b'') r) ''b'' = Some 1 \<and>
      r_recvs (OnStream counting_sdk ?packet (open_frame ''b'') r) 1 =
        Some (new_receiver (UserRef 1 2) (SessionRef 1 ''s'') 0)"
    if "r_streamRecv r = [''a'' \<mapsto> 0]" "r_nextRecv r = 1" "r_streamPorts r = Map.empty" for r :: "(u64, u64) runtime"
    using that by (simp add: open_as_defs)
  have final: "r_streamRecv ?final ''b'' = Some 1"
    "r_recvs ?final 1 = Some (new_receiver (UserRef 1 2) (SessionRef 1 ''s'') 0)"
    using second [OF opened(1-3)] by blast+
  then have b: "r_streamRecv ?final ''b'' = Some 1" "rv_peer (receiver ?final 1) = UserRef 1 2"
    by (simp_all add: new_receiver_def)
  have "\<not> (r_streamRecv ?final ''a'' = Some a \<and> rv_peer (receiver ?final a) = UserRef 1 2)" for a
  proof
    assume a: "r_streamRecv ?final ''a'' = Some a \<and> rv_peer (receiver ?final a) = UserRef 1 2"
    have "''a'' = ''b'' \<and> a = 1"
      by (rule one_live_receiver_per_peer [OF run, THEN conjunct1, rule_format])
         (intro conjI conjunct1 [OF a] b(1) trans [OF conjunct2 [OF a] b(2) [symmetric]])
    then show False by simp
  qed
  with b(1) show ?thesis by (simp only: Let_def simp_thms)
qed

end
