(* ===== verification/Dataplane.thy ===== *)
theory Dataplane
  imports Runtime
begin

text \<open>
  What the runtime's handlers do to packets and paths: where a packet read from the TUN device is
  queued, what a stream frame makes the receiver write, and how the loss of a path, a failed send
  or a new session of the peer moves its traffic back to the relay connection.
\<close>

section \<open>From the TUN device into the queues\<close>

text \<open>A packet the routes give to \<open>user\<close>, of an allowed size.\<close>

definition routed :: "('ss, 'rs) rt \<Rightarrow> user_ref \<Rightarrow> bytes \<Rightarrow> bool" where
  "routed r user packet \<longleftrightarrow>
     0 < length packet \<and> int (length packet) \<le> tr_MaxPacketBytes (cfg_Transport (r_cfg r)) \<and>
     map_option (\<lambda>p. peer_ref p) (lookup (r_routes r) packet) = Some user"

text \<open>A stream port is a bounded queue whose slots are usable while its path is ready.\<close>

abbreviation ready_slots :: "'ss stream_port \<Rightarrow> nat" where
  "ready_slots p \<equiv> (if sp_readyState p then sp_slots p else 0)"

interpretation rq: bounded_queue enqueueReady sp_queue ready_slots
  by unfold_locales (auto simp: enqueueReady_def sp_enqueue_def chan_offer_def split: if_splits)

text \<open>The free slots of the peer's stream, none when it has no ready stream.\<close>

definition stream_room :: "('ss, 'rs) rt \<Rightarrow> user_ref \<Rightarrow> nat" where
  "stream_room r user =
     (case r_activeStreams r user of
        None \<Rightarrow> 0
      | Some pid \<Rightarrow> ready_slots (sport r pid) - length (sp_queue (sport r pid)))"

definition relay_queue :: "('ss, 'rs) rt \<Rightarrow> user_ref \<Rightarrow> bytes list" where
  "relay_queue r user =
     (case rl_ports (r_relay r) user of None \<Rightarrow> [] | Some pid \<Rightarrow> pp_queue (the (rl_heap (r_relay r) pid)))"

definition relay_room :: "('ss, 'rs) rt \<Rightarrow> user_ref \<Rightarrow> nat" where
  "relay_room r user =
     (case rl_ports (r_relay r) user of
        None \<Rightarrow> 0
      | Some pid \<Rightarrow> pp_slots (the (rl_heap (r_relay r) pid)) - length (pp_queue (the (rl_heap (r_relay r) pid))))"

definition stream_queue :: "('ss, 'rs) rt \<Rightarrow> user_ref \<Rightarrow> bytes list" where
  "stream_queue r user =
     (case r_activeStreams r user of None \<Rightarrow> [] | Some pid \<Rightarrow> sp_queue (sport r pid))"

text \<open>The outlets of a user exist.\<close>

definition outlets_exist :: "('ss, 'rs) rt \<Rightarrow> user_ref \<Rightarrow> bool" where
  "outlets_exist r user \<longleftrightarrow>
     (case r_activeStreams r user of None \<Rightarrow> True | Some pid \<Rightarrow> r_sports r pid \<noteq> None) \<and>
     (case rl_ports (r_relay r) user of None \<Rightarrow> True | Some pid \<Rightarrow> rl_heap (r_relay r) pid \<noteq> None)"

text \<open>One packet: it goes to the stream if that has room, else to the relay port if that has.\<close>

lemma enqueueReady_simps:
  "sp_queue (fst (enqueueReady p x)) = (if length (sp_queue p) < ready_slots p then sp_queue p @ [x] else sp_queue p)"
  "sp_readyState (fst (enqueueReady p x)) = sp_readyState p" "sp_slots (fst (enqueueReady p x)) = sp_slots p"
  using rq.offer_taken [of p x] rq.offer_refused [of p x]
  by (auto simp: enqueueReady_def sp_enqueue_def chan_offer_def)

lemma port_enqueue_simps:
  "pp_queue (fst (port_enqueue p x)) = (if length (pp_queue p) < pp_slots p then pp_queue p @ [x] else pp_queue p)"
  "pp_slots (fst (port_enqueue p x)) = pp_slots p"
  using pq.offer_taken [of p x] pq.offer_refused [of p x] pq.offer_slots [of p x] by auto

lemmas outlet_defs = stream_queue_def stream_room_def relay_queue_def relay_room_def outlets_exist_def
  on_sport_def on_port_def

lemma stream_takes:
  assumes "routed r user packet" "outlets_exist r user" "0 < stream_room r user"
  obtains pid p where "r_activeStreams r user = Some pid" "r_sports r pid = Some p"
    "length (sp_queue p) < ready_slots p"
    "readTUNPacket packet r = r\<lparr>r_sports := (r_sports r)(pid \<mapsto> fst (enqueueReady p packet))\<rparr>"
proof -
  from assms(1) obtain peer where peer: "lookup (r_routes r) packet = Some peer" "peer_ref peer = user"
    and size: "packet \<noteq> []" "\<not> tr_MaxPacketBytes (cfg_Transport (r_cfg r)) < int (length packet)"
    by (auto simp: routed_def)
  from assms(2,3) obtain pid p where p: "r_activeStreams r user = Some pid" "r_sports r pid = Some p"
    by (auto simp: stream_room_def outlets_exist_def split: option.splits)
  with assms(3) have room: "length (sp_queue p) < ready_slots p"
    by (simp add: stream_room_def split: if_splits)
  then have "snd (enqueueReady p packet)" by (simp only: rq.offer_accepts_iff)
  with p peer size have "readTUNPacket packet r = r\<lparr>r_sports := (r_sports r)(pid \<mapsto> fst (enqueueReady p packet))\<rparr>"
    by (simp add: readTUNPacket_def on_sport_def)
  with p room show ?thesis by (rule that)
qed

lemma stream_refuses:
  assumes "routed r user packet" "outlets_exist r user" "stream_room r user = 0"
  shows "readTUNPacket packet r =
    (case rl_ports (r_relay r) user of None \<Rightarrow> r
     | Some pid \<Rightarrow> r\<lparr>r_relay := on_port pid (\<lambda>p. fst (port_enqueue p packet)) (r_relay r)\<rparr>)"
proof -
  from assms(1) obtain peer where peer: "lookup (r_routes r) packet = Some peer" "peer_ref peer = user"
    and size: "packet \<noteq> []" "\<not> tr_MaxPacketBytes (cfg_Transport (r_cfg r)) < int (length packet)"
    by (auto simp: routed_def)
  show ?thesis
  proof (cases "r_activeStreams r user")
    case None
    with peer size show ?thesis by (simp add: readTUNPacket_def)
  next
    case (Some pid)
    with assms(2) obtain p where p: "r_sports r pid = Some p" by (auto simp: outlets_exist_def)
    have "ready_slots p \<le> length (sp_queue p)"
      using assms(3) Some p by (simp only: stream_room_def option.simps option.sel diff_is_0_eq)
    then have "enqueueReady p packet = (p, False)" by (rule rq.offer_refused)
    moreover have "(r_sports r)(pid \<mapsto> p) = r_sports r" using p by (simp add: fun_upd_idem)
    ultimately show ?thesis using peer size Some p by (simp add: readTUNPacket_def on_sport_def)
  qed
qed

lemma readTUNPacket_step:
  assumes "routed r user packet" "outlets_exist r user"
  shows "stream_queue (readTUNPacket packet r) user =
           stream_queue r user @ (if 0 < stream_room r user then [packet] else []) \<and>
         stream_room (readTUNPacket packet r) user = stream_room r user - 1 \<and>
         relay_queue (readTUNPacket packet r) user =
           relay_queue r user @ (if stream_room r user = 0 \<and> 0 < relay_room r user then [packet] else []) \<and>
         relay_room (readTUNPacket packet r) user =
           (if stream_room r user = 0 then relay_room r user - 1 else relay_room r user) \<and>
         r_cfg (readTUNPacket packet r) = r_cfg r \<and> r_routes (readTUNPacket packet r) = r_routes r \<and>
         outlets_exist (readTUNPacket packet r) user"
proof (cases "0 < stream_room r user")
  case True
  from stream_takes [OF assms True] obtain pid p where
    p: "r_activeStreams r user = Some pid" "r_sports r pid = Some p" "length (sp_queue p) < ready_slots p"
      "readTUNPacket packet r = r\<lparr>r_sports := (r_sports r)(pid \<mapsto> fst (enqueueReady p packet))\<rparr>" .
  show ?thesis
    using True assms(2) p(1-3)
    by (cases "rl_ports (r_relay r) user")
       (auto simp: p(4) stream_queue_def stream_room_def relay_queue_def relay_room_def outlets_exist_def
        enqueueReady_simps split: if_splits)
next
  case False
  then have room: "stream_room r user = 0" by simp
  show ?thesis
  proof (cases "rl_ports (r_relay r) user")
    case None
    then show ?thesis
      using room assms(2) by (simp add: stream_refuses [OF assms room] relay_room_def)
  next
    case (Some pid)
    with assms(2) obtain q where "rl_heap (r_relay r) pid = Some q" by (auto simp: outlets_exist_def)
    with Some room assms(2) show ?thesis
      by (cases "r_activeStreams r user")
         (simp_all add: stream_refuses [OF assms room] relay_room_def relay_queue_def stream_queue_def stream_room_def
          outlets_exist_def on_port_def port_enqueue_simps split: if_splits)
  qed
qed


lemma readTUNLoop_burst:
  assumes "list_all (routed r user) packets" "outlets_exist r user"
  shows "stream_queue (readTUNLoop (map Some packets) r) user =
           stream_queue r user @ take (stream_room r user) packets \<and>
         relay_queue (readTUNLoop (map Some packets) r) user =
           relay_queue r user @ take (relay_room r user) (drop (stream_room r user) packets)"
  using assms
proof (induction packets arbitrary: r)
  case (Cons packet packets)
  let ?t = "readTUNPacket packet r"
  from Cons.prems have "routed r user packet" by simp
  note step = readTUNPacket_step [OF this Cons.prems(2)]
  have "list_all (routed ?t user) packets"
    using Cons.prems(1) step by (auto simp: routed_def list_all_iff)
  from Cons.IH [OF this] step show ?case
    by (cases "stream_room r user"; cases "relay_room r user") auto
qed simp

text \<open>C19. A burst of packets for one peer fills the queue of its ready stream first and what finds no
  room there spills, still in order, to the selected relay connection; only what finds no room in
  either is dropped, and the read loop never waits. Each packet is queued at most once. (The
  README has a full queue drop the packet; the code drops it only when the warm relay
  connection is full or missing too.)\<close>

theorem burst_fills_stream_then_relay:
  assumes "list_all (routed r user) packets" "outlets_exist r user"
  shows "stream_queue (readTUNLoop (map Some packets) r) user =
           stream_queue r user @ take (stream_room r user) packets \<and>
         relay_queue (readTUNLoop (map Some packets) r) user =
           relay_queue r user @ take (relay_room r user) (drop (stream_room r user) packets)"
  by (rule readTUNLoop_burst [OF assms])

section \<open>From a stream frame to the TUN device\<close>

lemma fold_WritePacket: "fold WritePacket ps r = r\<lparr>r_written := r_written r @ ps\<rparr>"
  by (induction ps arbitrary: r) (auto simp: WritePacket_def)

lemma writePayload_written:
  "r_written (writePayload payload r) =
     r_written r @ (if snd (decodeStreamBatch payload) then fst (decodeStreamBatch payload) else [payload])"
  by (auto simp: writePayload_def fold_WritePacket WritePacket_def split: prod.splits)

lemma writePayload_recvs [simp]: "r_recvs (writePayload payload r) = r_recvs r"
  using writePayload_frames [of payload r] by auto

text \<open>C4. Across a stream, packets arrive whole and in order: if the SDK's receiver yields the payload
  the peer's writer built from a first packet and its send queue, the handler writes to the TUN device
  that packet and the queued ones the batch took, in order, one write each, and hands the
  acknowledgement to the receiver's writer.\<close>

theorem stream_data_reaches_device:
  assumes "list_all stream_valid (first # queue)" "4 + length first \<le> sdk_maxFrame sdk"
    and "encodeStreamBatch (sdk_maxFrame sdk) first queue = (payload, overflow, left)"
    and "fr_Kind frame = KData" "r_streamRecv r (fr_ID frame) = Some rid"
    and "r_recvs r rid = Some v" "\<not> rv_ackStopped v"
    and "receiver_Accept (sdk_receiver sdk) (rv_state v) frame = ((payload, ack, None), state)"
  shows "\<exists>taken v'. queue = taken @ (case overflow of None \<Rightarrow> left | Some p \<Rightarrow> p # left) \<and>
           r_written (OnStream sdk packet frame r) = r_written r @ first # taken \<and>
           r_recvs (OnStream sdk packet frame r) rid = Some v' \<and> rv_state v' = state \<and>
           rv_ackPending v' = Some ack"
proof -
  from encodeStreamBatch_packs [OF assms(1-3)] obtain taken where
    taken: "queue = taken @ (case overflow of None \<Rightarrow> left | Some p \<Rightarrow> p # left)"
      "decodeStreamBatch payload = (first # taken, True)" by blast
  then have dec: "decodeStreamBatch payload = (first # taken, True)" "payload \<noteq> []"
    by (auto simp: decodeStreamBatch_def isStreamBatch_def streamPacketMagic_def)
  have "OnStream sdk packet frame r =
      on_recv rid (queueAck ack) (writePayload payload (on_recv rid (\<lambda>rv. rv\<lparr>rv_state := state\<rparr>) r))"
    using assms(4-6,8) dec(2) by (simp add: OnStream_def OnData_def)
  moreover have "r_written (on_recv x f t) = r_written t" for x f and t :: "('a, 'b) runtime"
    by (simp add: on_recv_def)
  ultimately have "r_written (OnStream sdk packet frame r) = r_written r @ first # taken"
    "r_recvs (OnStream sdk packet frame r) rid = Some (queueAck ack (v\<lparr>rv_state := state\<rparr>))"
    using assms(6) dec by (simp_all add: writePayload_written) (simp add: on_recv_def)
  moreover have "rv_state (queueAck ack (v\<lparr>rv_state := state\<rparr>)) = state"
    "rv_ackPending (queueAck ack (v\<lparr>rv_state := state\<rparr>)) = Some ack"
    using assms(7) by (simp_all add: recv_defs)
  ultimately show ?thesis using taken(1) by blast
qed

section \<open>Losing a path\<close>

lemma lose_path_not_ready: "\<not> sp_readyState (lose_path err p)"
  by (auto simp: port_op_defs split: option.splits)

text \<open>Marking the ports of a list lost: each of them is marked once, and no other port is touched.\<close>

lemma mark_all:
  assumes "distinct (map snd items)" "list_all (\<lambda>(u, pid). r_sports r pid \<noteq> None) items"
  shows "r_sports (markAllStreamPathsLost err items r) =
           (\<lambda>pid. if pid \<in> snd ` set items then map_option (lose_path err) (r_sports r pid) else r_sports r pid)"
    and "r_activeStreams (markAllStreamPathsLost err items r) =
           (\<lambda>u. if \<exists>pid. (u, pid) \<in> set items \<and> r_activeStreams r u = Some pid then None else r_activeStreams r u)"
proof -
  have "r_sports (markAllStreamPathsLost err items r) =
           (\<lambda>pid. if pid \<in> snd ` set items then map_option (lose_path err) (r_sports r pid) else r_sports r pid) \<and>
        r_activeStreams (markAllStreamPathsLost err items r) =
           (\<lambda>u. if \<exists>pid. (u, pid) \<in> set items \<and> r_activeStreams r u = Some pid then None else r_activeStreams r u)"
    using assms
  proof (induction items arbitrary: r)
    case Nil
    then show ?case by (simp add: markAllStreamPathsLost_def)
  next
    case (Cons x items)
    obtain u pid where x: "x = (u, pid)" by force
    let ?t = "deactivateStreamIfNotReady u pid (on_sport pid (markPathLostWithError err) r)"
    from Cons.prems obtain p where p: "r_sports r pid = Some p" by (auto simp: x)
    have sports: "r_sports ?t = (r_sports r)(pid \<mapsto> lose_path err p)"
      using p by (simp add: on_sport_def markPathLostWithError_def)
    have "\<not> sp_readyState (sport (on_sport pid (markPathLostWithError err) r) pid)"
      using p by (simp add: on_sport_def markPathLostWithError_def lose_path_not_ready)
    then have active: "r_activeStreams ?t =
        (\<lambda>v. if v = u \<and> r_activeStreams r u = Some pid then None else r_activeStreams r v)"
      by (auto simp: deactivateStreamIfNotReady_def fun_eq_iff)
    have IH: "r_sports (markAllStreamPathsLost err items ?t) =
           (\<lambda>q. if q \<in> snd ` set items then map_option (lose_path err) (r_sports ?t q) else r_sports ?t q) \<and>
        r_activeStreams (markAllStreamPathsLost err items ?t) =
           (\<lambda>v. if \<exists>q. (v, q) \<in> set items \<and> r_activeStreams ?t v = Some q then None else r_activeStreams ?t v)"
    proof (rule Cons.IH)
      show "list_all (\<lambda>(u, q). r_sports ?t q \<noteq> None) items"
        using Cons.prems(2) unfolding sports by (auto simp: list_all_iff)
    qed (use Cons.prems in auto)
    have "markAllStreamPathsLost err (x # items) r = markAllStreamPathsLost err items ?t"
      by (simp add: markAllStreamPathsLost_def x)
    moreover have "pid \<notin> snd ` set items" using Cons.prems(1) by (auto simp: x)
    ultimately show ?case
      unfolding sports active using IH [unfolded sports active] p by (auto simp: x fun_eq_iff)
  qed
  then show "r_sports (markAllStreamPathsLost err items r) =
           (\<lambda>pid. if pid \<in> snd ` set items then map_option (lose_path err) (r_sports r pid) else r_sports r pid)"
    "r_activeStreams (markAllStreamPathsLost err items r) =
           (\<lambda>u. if \<exists>pid. (u, pid) \<in> set items \<and> r_activeStreams r u = Some pid then None else r_activeStreams r u)"
    by blast+
qed

text \<open>C20. When the connection to the server is lost, every peer with a stream falls back to its relay
  connection at once: no stream that is the peer's current one stays active, every ready path
  becomes not ready with its lifecycle and its writer notified, and every Open or Resume under way
  is told the reason; the relay registry is left alone.\<close>

theorem disconnect_falls_back_to_relay:
  assumes "distinct (map snd items)" "set items = {(u, pid). r_streamPorts r u = Some pid}"
    and "list_all (\<lambda>(u, pid). r_sports r pid \<noteq> None) items"
    and "r_streamPorts r user = Some pid" "r_sports r pid = Some p"
  shows "(let t = OnDisconnect (Some err) items r in
           r_activeStreams t user \<noteq> Some pid \<and> r_relay t = r_relay r \<and>
           (\<exists>q. r_sports t pid = Some q \<and> \<not> sp_readyState q \<and>
              (if sp_readyState p then sp_lost q \<and> sp_wake q else sp_errs q (sp_attemptErr q) \<noteq> [])))"
proof -
  have "(user, pid) \<in> set items" using assms(2,4) by simp
  then have pid: "pid \<in> snd ` set items" by force
  have "r_relay (markAllStreamPathsLost (Some err) items r) = r_relay r" for items
    unfolding markAllStreamPathsLost_def by (induction items arbitrary: r) auto
  then show ?thesis
    using \<open>(user, pid) \<in> set items\<close> pid assms(5)
    by (auto simp: OnDisconnect_def Let_def mark_all [OF assms(1,3)] lose_path_not_ready)
       (auto simp: port_op_defs split: if_splits)
qed

text \<open>C21. An asynchronous send failure acts only on the path it names: for another stream ID, session
  or epoch than the port's current ones it changes nothing; for the current ones it takes the
  stream out of the peer's outlet, forgets the failed session as the preferred one, and notifies the
  lifecycle and the writer of a ready path, or the Open or Resume under way.\<close>

theorem send_failure_hits_current_path_only:
  assumes "r_streamPorts r (sr_Target result) = Some pid" "r_sports r pid = Some p" "sr_Err result = Some err"
  shows "(let t = OnStreamSendResult result r; q = sport t pid in
      if sp_id p \<noteq> sr_StreamID result \<or> sp_targetSession p \<noteq> sr_TargetSession result \<or> sp_epoch p \<noteq> sr_Epoch result
      then t = r
      else \<not> sp_readyState q \<and> r_activeStreams t (sr_Target result) \<noteq> Some pid \<and>
           r_preferredStreams t (sr_Target result) \<noteq> Some (sr_TargetSession result) \<and>
           (if sp_readyState p then sp_lost q \<and> sp_wake q else sp_errs q (sp_attemptErr q) \<noteq> []))"
  using assms
  by (auto simp: OnStreamSendResult_def failPath_def Let_def deactivateStreamIfNotReady_def on_sport_def
      lose_path_not_ready)
     (auto simp: port_op_defs split: if_splits)

section \<open>A peer that comes back on another session\<close>

text \<open>C23. A peer that opens a stream from a session other than the one its outbound stream targets has
  restarted: the port is told to rebuild, once, and closed, the new session is the first candidate
  of the rebuild, and the Open is acknowledged to that session with its own ID, epoch and window.\<close>

theorem open_from_new_session_rebuilds:
  assumes "fr_Kind frame = KOpen" "\<not> sdk_isZero sdk (pk_TargetSession packet)"
    and "r_streamPorts r (pk_Sender packet) = Some pid" "r_sports r pid = Some p" "port_inv p"
    and "sp_targetSession p \<noteq> pk_TargetSession packet"
  shows "(let t = OnStream sdk packet frame r; q = sport t pid in
      sp_restart q \<and> sp_done q \<and> \<not> sp_panicked q \<and>
      r_preferredStreams t (pk_Sender packet) = Some (pk_TargetSession packet) \<and>
      (\<exists>ack. r_sent t = r_sent r @ [(pk_Sender packet, pk_TargetSession packet, ack)] \<and> fr_Kind ack = KOpenAck \<and>
         fr_ID ack = fr_ID frame \<and> fr_Epoch ack = fr_Epoch frame \<and> fr_Window ack = fr_Window frame))"
proof -
  let ?r1 = "openReceiver sdk packet frame (replaceReceivers (pk_Sender packet) (fr_ID frame) r)"
  let ?r2 = "preferSession (pk_Sender packet) (pk_TargetSession packet) ?r1"
  have eq: "OnStream sdk packet frame r = sendStreamFrame (pk_Sender packet) (pk_TargetSession packet)
      (zero_frame\<lparr>fr_Kind := KOpenAck, fr_ID := fr_ID frame, fr_Epoch := fr_Epoch frame, fr_Window := fr_Window frame\<rparr>)
      (on_sport pid (\<lambda>p. fst (requestRestart (pk_TargetSession packet) p)) ?r2)"
    using assms by (simp add: OnStream_def OnOpen_def Let_def currentPath_def)
  have sent: "r_sent ?r2 = r_sent r"
    by (simp add: preferSession_def openReceiver_def replaceReceivers_def on_recv_def Let_def split: option.split)
  have "sp_restart (fst (requestRestart (pk_TargetSession packet) p)) \<and> sp_done (fst (requestRestart (pk_TargetSession packet) p))"
    using assms(5,6) by (auto simp: port_inv_def port_defs Let_def)
  moreover have "\<not> sp_panicked (fst (requestRestart (pk_TargetSession packet) p))"
    using port_inv_restart(1) [OF assms(5)] by (simp add: port_inv_def)
  ultimately show ?thesis
    unfolding Let_def eq using assms(4) sent
    by (simp add: sendStreamFrame_def on_sport_def preferSession_def)
qed

text \<open>C22. A valid Resume moves the receiver's replies to the session it comes from and is answered there,
  synchronously, with the receiver's offset; an acknowledgement of the old path that was not sent
  yet is dropped. If this peer's own outbound stream targets another session, its path is declared
  lost and its traffic falls back to the relay connection until it has recovered.\<close>

theorem resume_moves_replies_and_recovers:
  assumes "fr_Kind frame = KResume" "\<not> sdk_isZero sdk (pk_TargetSession packet)"
    and "r_streamRecv r (fr_ID frame) = Some rid" "r_recvs r rid = Some v"
    and "receiver_Resume (sdk_receiver sdk) (rv_state v) (fr_Epoch frame) (fr_Offset frame) = ((ack, None), state)"
    and "r_streamPorts r (pk_Sender packet) = Some pid" "r_sports r pid = Some p"
    and "sp_targetSession p \<noteq> pk_TargetSession packet"
  shows "(let t = OnStream sdk packet frame r; q = sport t pid; w = receiver t rid in
      rv_targetSession w = pk_TargetSession packet \<and> rv_ackPending w = None \<and> rv_state w = state \<and>
      r_sent t = r_sent r @ [(rv_peer v, pk_TargetSession packet, ack)] \<and>
      r_preferredStreams t (pk_Sender packet) = Some (pk_TargetSession packet) \<and>
      \<not> sp_readyState q \<and> r_activeStreams t (pk_Sender packet) \<noteq> Some pid \<and>
      (if sp_readyState p then sp_lost q \<and> sp_wake q else sp_errs q (sp_attemptErr q) \<noteq> []))"
proof -
  define v' where "v' = dropPendingAck (setSession (sdk_isZero sdk) (pk_TargetSession packet) (v\<lparr>rv_state := state\<rparr>))"
  define q where "q = lose_path (Some peerSessionChanged) p"
  define t where "t = OnStream sdk packet frame r"
  have v': "rv_targetSession v' = pk_TargetSession packet" "rv_ackPending v' = None" "rv_state v' = state" "rv_peer v' = rv_peer v"
    using assms(2) by (simp_all add: v'_def recv_defs)
  have nr: "\<not> sp_readyState q" by (simp add: q_def lose_path_not_ready)
  have q: "if sp_readyState p then sp_lost q \<and> sp_wake q else sp_errs q (sp_attemptErr q) \<noteq> []"
    by (auto simp: q_def port_op_defs split: if_splits)
  have "r_recvs t rid = Some v'" "r_sports t pid = Some q" "r_activeStreams t (pk_Sender packet) \<noteq> Some pid"
    "r_sent t = r_sent r @ [(rv_peer v', rv_targetSession v', ack)]"
    "r_preferredStreams t (pk_Sender packet) = Some (pk_TargetSession packet)"
    using assms nr
    by (simp_all add: t_def OnStream_def OnResume_def Let_def currentPath_def on_recv_def on_sport_def
        preferSession_def sendStreamFrame_def deactivateStreamIfNotReady_def markPathLostWithError_def
        v'_def q_def)
  then show ?thesis unfolding t_def [symmetric] Let_def using v' q nr by simp
qed


section \<open>Concrete runs\<close>

text \<open>A runtime with one peer: a ready stream with one slot, targeting session s, and a relay
  connection with one slot; and its neighbour, which has received an Open of stream id.\<close>

abbreviation demo_user :: user_ref where "demo_user \<equiv> UserRef 1 2"

definition demo_port :: "u64 stream_port" where
  "demo_port = port_run counting_sender [EvBeginOpen (SessionRef 1 ''s''), EvOpenAck (SessionRef 1 ''s'') 1]
     (new_port demo_user ''id'' 0 1)"

definition demo_receiver :: "u64 stream_receiver" where
  "demo_receiver = new_receiver demo_user (SessionRef 1 ''s'') 0"

definition demo :: "(u64, u64) runtime" where
  "demo = (newRuntime example_config
      [\<lparr>rt_prefix = \<lparr>netIP = [10, 0, 0, 0], netMask = [255, 0, 0, 0]\<rparr>, rt_peer = peer_with ''cc'' 2 []\<rparr>] (UserRef 1 1))
     \<lparr>r_sports := [0 \<mapsto> demo_port], r_nextPort := 1, r_streamPorts := [demo_user \<mapsto> 0],
      r_activeStreams := [demo_user \<mapsto> 0], r_preferredStreams := [demo_user \<mapsto> SessionRef 1 ''s''],
      r_relay := fst (registerPort 1 (peer_with ''cc'' 2 []) ''r'' relay_start),
      r_recvs := [0 \<mapsto> demo_receiver], r_nextRecv := 1, r_streamRecv := [''id'' \<mapsto> 0]\<rparr>"

lemma demo_port_eq:
  "demo_port = (new_port demo_user ''id'' 0 1)\<lparr>sp_targetSession := SessionRef 1 ''s'', sp_readyState := True,
     sp_ready := 2, sp_attemptErr := 3, sp_fresh := 4, sp_closed := {2}\<rparr>"
  by (simp add: demo_port_def port_defs port_op_defs new_port_def)

lemma demo_port_inv: "port_inv demo_port"
  unfolding demo_port_def by (rule port_run_new)

lemma demo_port_simps [simp]:
  "sp_readyState demo_port" "sp_slots demo_port = 1" "sp_queue demo_port = []" "sp_id demo_port = ''id''"
  "sp_targetSession demo_port = SessionRef 1 ''s''" "sp_epoch demo_port = 1"
  by (simp_all add: demo_port_eq new_port_def)

lemma demo_simps [simp]:
  "r_sports demo = [0 \<mapsto> demo_port]" "r_streamPorts demo = [demo_user \<mapsto> 0]"
  "r_activeStreams demo = [demo_user \<mapsto> 0]" "r_preferredStreams demo = [demo_user \<mapsto> SessionRef 1 ''s'']"
  "r_recvs demo = [0 \<mapsto> demo_receiver]" "r_streamRecv demo = [''id'' \<mapsto> 0]" "r_written demo = []" "r_sent demo = []"
  "r_cfg demo = example_config"
  "rl_ports (r_relay demo) = [demo_user \<mapsto> 0]"
  "rl_heap (r_relay demo) = [0 \<mapsto> \<lparr>pp_peer = peer_with ''cc'' 2 [], pp_relayID = ''r'', pp_queue = [], pp_slots = 1,
     pp_done = False, pp_aborted = False\<rparr>]"
  by (simp_all add: demo_def newRuntime_def registerPort_def relay_start_def peer_with_def
      UserRef_ToTurntf_def Let_def)

lemma demo_receiver_simps [simp]:
  "rv_state demo_receiver = 0" "\<not> rv_ackStopped demo_receiver" "rv_peer demo_receiver = demo_user"
  by (simp_all add: demo_receiver_def new_receiver_def)

lemma demo_routed: "routed demo demo_user (ipv4_packet 10 0 0 x)"
  by (simp add: routed_def lookup_def ipv4_packet_dst demo_def newRuntime_def example_config_def
      ipnet_Contains_def networkNumberAndMask_def net_IPv4_def ip_To4_def v4InV6Prefix_def zip_and_def
      replicate_numeral_Cons peer_with_def UserRef_ToTurntf_def)
     (simp add: ipv4_packet_def)

theorem burst_fills_stream_then_relay_witness:
  "(let packets = [ipv4_packet 10 0 0 1, ipv4_packet 10 0 0 2, ipv4_packet 10 0 0 3];
        t = readTUNLoop (map Some packets) demo
    in stream_queue t demo_user = [ipv4_packet 10 0 0 1] \<and> relay_queue t demo_user = [ipv4_packet 10 0 0 2])"
proof -
  have "list_all (routed demo demo_user) [ipv4_packet 10 0 0 1, ipv4_packet 10 0 0 2, ipv4_packet 10 0 0 3]"
    by (simp add: demo_routed)
  moreover have "outlets_exist demo demo_user" by (simp add: outlets_exist_def)
  moreover have "stream_queue demo demo_user = []" "stream_room demo demo_user = 1" "relay_queue demo demo_user = []"
    "relay_room demo demo_user = 1" by (simp_all add: stream_queue_def stream_room_def relay_queue_def relay_room_def)
  ultimately show ?thesis
    using burst_fills_stream_then_relay [of demo demo_user
        "[ipv4_packet 10 0 0 1, ipv4_packet 10 0 0 2, ipv4_packet 10 0 0 3]"]
    by (simp add: Let_def del: readTUNLoop.simps)
qed

definition demo_packet :: "string \<Rightarrow> stream_packet" where
  "demo_packet s = \<lparr>pk_Sender = demo_user, pk_TargetSession = SessionRef 1 s\<rparr>"

theorem stream_data_reaches_device_witness:
  "r_written (OnStream counting_sdk (demo_packet ''s'')
      (zero_frame\<lparr>fr_Kind := KData, fr_ID := ''id'', fr_Payload := [0x54, 0x50, 0, 2, 1, 2, 0, 1, 3]\<rparr>) demo) = [[1, 2], [3]]"
proof -
  let ?f = "zero_frame\<lparr>fr_Kind := KData, fr_ID := ''id'', fr_Payload := [0x54, 0x50, 0, 2, 1, 2, 0, 1, 3]\<rparr>"
  have e: "encodeStreamBatch (sdk_maxFrame counting_sdk) [1, 2] [[3]] = ([0x54, 0x50, 0, 2, 1, 2, 0, 1, 3], None, [])"
    by (simp add: encodeStreamBatch_def appendStreamBatch_def appendStreamPacket_def isStreamBatch_def
        streamPacketMagic_def putUint16_def drop_bit_eq_div counting_sdk_def)
  show ?thesis
    using stream_data_reaches_device [OF _ _ e, of ?f demo 0 demo_receiver, where packet = "demo_packet ''s''"]
    by (auto simp: counting_sdk_def counting_receiver_def zero_frame_def stream_valid_def)
qed

theorem disconnect_falls_back_to_relay_witness:
  "r_activeStreams (OnDisconnect (Some (StreamError ''eof'')) [(demo_user, 0)] demo) demo_user \<noteq> Some 0"
proof -
  have "set [(demo_user, 0)] = {(u, pid). r_streamPorts demo u = Some pid}" by (auto split: if_splits)
  from disconnect_falls_back_to_relay [OF _ this, of demo_user 0 demo_port "StreamError ''eof''"]
  show ?thesis by (simp add: Let_def)
qed

theorem send_failure_hits_current_path_only_witness:
  "r_activeStreams (OnStreamSendResult \<lparr>sr_Target = demo_user, sr_TargetSession = SessionRef 1 ''s'', sr_StreamID = ''id'',
      sr_Epoch = 1, sr_Err = Some (StreamError ''no route'')\<rparr> demo) demo_user \<noteq> Some 0"
  using send_failure_hits_current_path_only [of demo "\<lparr>sr_Target = demo_user, sr_TargetSession = SessionRef 1 ''s'',
      sr_StreamID = ''id'', sr_Epoch = 1, sr_Err = Some (StreamError ''no route'')\<rparr>" 0 demo_port "StreamError ''no route''"]
  by (simp add: Let_def)

theorem open_from_new_session_rebuilds_witness:
  "sp_restart (sport (OnStream counting_sdk (demo_packet ''new'') (open_frame ''b'') demo) 0)"
  using open_from_new_session_rebuilds [of "open_frame ''b''" counting_sdk "demo_packet ''new''" demo 0 demo_port] demo_port_inv
  by (simp add: Let_def open_frame_def counting_sdk_def demo_packet_def zero_session_def)

theorem resume_moves_replies_and_recovers_witness:
  "sp_lost (sport (OnStream counting_sdk (demo_packet ''new'')
      (zero_frame\<lparr>fr_Kind := KResume, fr_ID := ''id'', fr_Epoch := 2\<rparr>) demo) 0)"
  using resume_moves_replies_and_recovers [of "zero_frame\<lparr>fr_Kind := KResume, fr_ID := ''id'', fr_Epoch := 2\<rparr>" counting_sdk
      "demo_packet ''new''" demo 0 demo_receiver _ _ 0 demo_port]
  by (simp add: Let_def counting_sdk_def counting_receiver_def demo_packet_def zero_session_def)

end
