(* ===== verification/StreamWriter.thy ===== *)
theory StreamWriter
  imports StreamPort
begin

text \<open>
  The writer of a stream, \<open>writeStreamLoop\<close> of internal/tun/stream.go: it batches the packets of a
  port's send queue, waits for the path to be ready, hands the batch to the SDK's sender and sends
  the frame, keeping the batch while the window is full or the path is down. The loop is a program
  counter over its blocking points and its accesses to the port, each of which is one critical
  section of the code; between two of its steps any other goroutine may operate on the port. Draining the queue into a batch is one step: a packet that arrives during the drain is
  one that was queued before it. Logging is left out.
\<close>

section \<open>The state\<close>

text \<open>Where the loop is between two accesses to the port: at the queue, before it looks at the path, at the
  captured ready channel, before the stall check after a full window, before it fails the path for
  want of progress (the idle writer, or the one with a batch) or for a refused batch, waiting for
  credit, inside the send, or nowhere any more.\<close>

datatype writer_pc =
    WIdle | WLook | WReady nat | WFull session_ref | WStale bool session_ref u64 u64 u64
  | WRefused session_ref u64 stream_error | WCredit | WSend session_ref stream_frame | WReturned

text \<open>\<open>w_in\<close> and \<open>w_data\<close> record the packets the queue accepted and the payloads the sender took.\<close>

record 'ss writer =
  w_port :: "'ss stream_port"
  w_pending :: "bytes option"
  w_overflow :: "bytes option"
  w_stalled :: stream_window_stall
  w_idleStalled :: stream_window_stall
  w_pc :: writer_pc
  w_in :: "bytes list"
  w_data :: "bytes list"
  w_sent :: "(session_ref \<times> stream_frame) list"

text \<open>What a step needs from outside: the frame limit, the stall timeout, the SDK.\<close>

record 'ss writer_env =
  we_max :: nat
  we_timeout :: int
  we_sdk :: "'ss sender_sdk"

section \<open>The loop\<close>

definition w_wait :: "'ss writer \<Rightarrow> 'ss writer" where
  "w_wait w = w\<lparr>w_pc := WLook\<rparr>"

definition w_look :: "'ss writer \<Rightarrow> 'ss writer" where
  "w_look w = w\<lparr>w_pc := WReady (snd (currentPath (w_port w)))\<rparr>"

definition w_encode :: "'ss writer_env \<Rightarrow> bytes \<Rightarrow> 'ss writer \<Rightarrow> 'ss writer" where
  "w_encode env first w =
     (let (pending, overflow, queue) = encodeStreamBatch (we_max env) first (sp_queue (w_port w))
      in w_wait (w\<lparr>w_pending := Some pending, w_overflow := overflow,
                   w_port := (w_port w)\<lparr>sp_queue := queue\<rparr>\<rparr>))"

text \<open>The head of the loop up to its first blocking point.\<close>

definition w_top :: "'ss writer_env \<Rightarrow> 'ss writer \<Rightarrow> 'ss writer" where
  "w_top env w =
     (case w_pending w of
        Some pending \<Rightarrow> w_wait w
      | None \<Rightarrow> (case w_overflow w of
          Some first \<Rightarrow> w_encode env first (w\<lparr>w_overflow := None\<rparr>)
        | None \<Rightarrow> w\<lparr>w_pc := WIdle\<rparr>))"

text \<open>The tick of the idle writer: the sample of the acknowledgements, and, when they have stalled, the
  decision to fail the path unless they move until then.\<close>

definition w_tick :: "'ss writer_env \<Rightarrow> int \<Rightarrow> 'ss writer \<Rightarrow> 'ss writer" where
  "w_tick env now w =
     (let (session, epoch, lastAck, lastWindow, outstanding) = outstandingAckProgress (w_port w)
      in if \<not> outstanding then w\<lparr>w_idleStalled := stall_reset\<rparr>
         else let (st, stalled) = stall_observe (session, epoch, lastAck, lastWindow) now (we_timeout env) (w_idleStalled w)
              in if stalled then w\<lparr>w_idleStalled := st, w_pc := WStale True session epoch lastAck lastWindow\<rparr>
                 else w\<lparr>w_idleStalled := st\<rparr>)"

definition w_stale :: "'ss writer_env \<Rightarrow> bool \<Rightarrow> session_ref \<Rightarrow> u64 \<Rightarrow> u64 \<Rightarrow> u64 \<Rightarrow> 'ss writer \<Rightarrow> 'ss writer" where
  "w_stale env idle session epoch lastAck lastWindow w =
     (let w = w\<lparr>w_port := fst (failPathIfAckUnchanged session epoch lastAck lastWindow ErrStreamAckStalled (w_port w))\<rparr>
      in w_top env (if idle then w\<lparr>w_idleStalled := stall_reset\<rparr> else w\<lparr>w_stalled := stall_reset\<rparr>))"

text \<open>The ready channel is closed: the batch is handed to the sender.\<close>

definition w_offer :: "'ss writer_env \<Rightarrow> bytes \<Rightarrow> 'ss writer \<Rightarrow> 'ss writer" where
  "w_offer env pending w =
     (case dataForReadyPath (we_sdk env) pending (w_port w) of
        (port, None) \<Rightarrow> w_top env (w\<lparr>w_port := port\<rparr>)
      | (port, Some (session, frame, err)) \<Rightarrow>
          (let w = w\<lparr>w_port := port\<rparr>
           in case err of
                None \<Rightarrow> w\<lparr>w_stalled := stall_reset, w_pending := None, w_data := w_data w @ [pending],
                          w_pc := WSend session frame\<rparr>
              | Some e \<Rightarrow>
                  if e = ErrStreamWindowFull then w\<lparr>w_pc := WFull session\<rparr>
                  else w\<lparr>w_stalled := stall_reset, w_pc := WRefused session (fr_Epoch frame) e\<rparr>))"

definition w_refused :: "'ss writer_env \<Rightarrow> session_ref \<Rightarrow> u64 \<Rightarrow> stream_error \<Rightarrow> 'ss writer \<Rightarrow> 'ss writer" where
  "w_refused env session epoch e w = w_top env (w\<lparr>w_port := fst (failPath session epoch e (w_port w))\<rparr>)"

definition w_full :: "'ss writer_env \<Rightarrow> session_ref \<Rightarrow> int \<Rightarrow> 'ss writer \<Rightarrow> 'ss writer" where
  "w_full env session now w =
     (case ackProgress session (w_port w) of
        None \<Rightarrow> w_top env (w\<lparr>w_stalled := stall_reset\<rparr>)
      | Some (epoch, lastAck, lastWindow) \<Rightarrow>
          (let (st, stalled) = stall_observe (session, epoch, lastAck, lastWindow) now (we_timeout env) (w_stalled w)
           in if stalled then w\<lparr>w_stalled := st, w_pc := WStale False session epoch lastAck lastWindow\<rparr>
              else w\<lparr>w_stalled := st, w_pc := WCredit\<rparr>))"

text \<open>Woken or timed out while waiting for credit: what was queued meanwhile joins the batch.\<close>

definition w_absorb :: "'ss writer_env \<Rightarrow> bytes \<Rightarrow> 'ss writer \<Rightarrow> 'ss writer" where
  "w_absorb env pending w =
     (if w_overflow w = None
      then let (pending, overflow, queue) = appendStreamBatch (we_max env) pending (sp_queue (w_port w))
           in w_top env (w\<lparr>w_pending := Some pending, w_overflow := overflow, w_port := (w_port w)\<lparr>sp_queue := queue\<rparr>\<rparr>)
      else w_top env w)"

definition w_result :: "'ss writer_env \<Rightarrow> session_ref \<Rightarrow> stream_frame \<Rightarrow> stream_error option \<Rightarrow> 'ss writer \<Rightarrow> 'ss writer" where
  "w_result env session frame err w =
     w_top env ((case err of
        None \<Rightarrow> w
      | Some e \<Rightarrow> w\<lparr>w_port := fst (failPath session (fr_Epoch frame) e (w_port w))\<rparr>)
      \<lparr>w_sent := w_sent w @ [(session, frame)]\<rparr>)"

text \<open>
  The events: the branches of the loop's selects, its next access to the port, the outcome of a send,
  and \<open>WOther\<close>, an operation of another goroutine on the port (only the writer receives from the queue and calls
  \<open>dataForReadyPath\<close>). An event that cannot happen at the current point changes nothing.
\<close>

datatype writer_event =
    WDone | WTick int | WRecv | WLookPath | WPathReady | WCheck int | WFail | WWoken | WTimeout
  | WSendResult "stream_error option" | WOther port_event

fun writers_own :: "port_event \<Rightarrow> bool" where
  "writers_own EvDequeue = True"
| "writers_own (EvData payload) = True"
| "writers_own ev = False"

definition writer_on_port :: "'ss writer_env \<Rightarrow> port_event \<Rightarrow> 'ss writer \<Rightarrow> 'ss writer" where
  "writer_on_port env ev w =
     (if writers_own ev then w
      else w\<lparr>w_port := port_do (we_sdk env) ev (w_port w),
             w_in := w_in w @ (case ev of
               EvEnqueue packet \<Rightarrow> if snd (enqueueReady (w_port w) packet) then [packet] else [] | _ \<Rightarrow> [])\<rparr>)"

fun writeStreamLoop :: "'ss writer_env \<Rightarrow> writer_event \<Rightarrow> 'ss writer \<Rightarrow> 'ss writer" where
  "writeStreamLoop env (WOther ev) w = writer_on_port env ev w"
| "writeStreamLoop env WDone w =
     (case w_pc w of
        WIdle \<Rightarrow> if sp_done (w_port w) then w\<lparr>w_pc := WReturned\<rparr> else w
      | WReady c \<Rightarrow> if sp_done (w_port w) then w\<lparr>w_pc := WReturned\<rparr> else w
      | WCredit \<Rightarrow> if sp_done (w_port w) \<or> sp_cancelled (w_port w) then w\<lparr>w_pc := WReturned\<rparr> else w
      | _ \<Rightarrow> w)"
| "writeStreamLoop env (WTick now) w = (if w_pc w = WIdle then w_tick env now w else w)"
| "writeStreamLoop env WRecv w =
     (case (w_pc w, sp_queue (w_port w)) of
        (WIdle, first # queue) \<Rightarrow> w_encode env first (w\<lparr>w_port := (w_port w)\<lparr>sp_queue := queue\<rparr>\<rparr>)
      | _ \<Rightarrow> w)"
| "writeStreamLoop env WLookPath w = (if w_pc w = WLook then w_look w else w)"
| "writeStreamLoop env WPathReady w =
     (case (w_pc w, w_pending w) of
        (WReady c, Some pending) \<Rightarrow> if c \<in> sp_closed (w_port w) then w_offer env pending w else w
      | _ \<Rightarrow> w)"
| "writeStreamLoop env (WCheck now) w = (case w_pc w of WFull session \<Rightarrow> w_full env session now w | _ \<Rightarrow> w)"
| "writeStreamLoop env WFail w =
     (case w_pc w of
        WStale idle session epoch lastAck lastWindow \<Rightarrow> w_stale env idle session epoch lastAck lastWindow w
      | WRefused session epoch e \<Rightarrow> w_refused env session epoch e w
      | _ \<Rightarrow> w)"
| "writeStreamLoop env WWoken w =
     (case (w_pc w, w_pending w) of
        (WCredit, Some pending) \<Rightarrow>
          if sp_wake (w_port w) then w_absorb env pending (w\<lparr>w_port := (w_port w)\<lparr>sp_wake := False\<rparr>\<rparr>) else w
      | _ \<Rightarrow> w)"
| "writeStreamLoop env WTimeout w =
     (case (w_pc w, w_pending w) of (WCredit, Some pending) \<Rightarrow> w_absorb env pending w | _ \<Rightarrow> w)"
| "writeStreamLoop env (WSendResult err) w =
     (case w_pc w of WSend session frame \<Rightarrow> w_result env session frame err w | _ \<Rightarrow> w)"

definition new_writer :: "'ss stream_port \<Rightarrow> 'ss writer" where
  "new_writer p =
     \<lparr>w_port = p, w_pending = None, w_overflow = None, w_stalled = stall_reset, w_idleStalled = stall_reset,
      w_pc = WIdle, w_in = sp_queue p, w_data = [], w_sent = []\<rparr>"

abbreviation writer_run :: "'ss writer_env \<Rightarrow> writer_event list \<Rightarrow> 'ss writer \<Rightarrow> 'ss writer" where
  "writer_run env \<equiv> fold (writeStreamLoop env)"

section \<open>Nothing is lost, duplicated or reordered\<close>

text \<open>A packet a batch of its own can carry.\<close>

definition carriable :: "nat \<Rightarrow> bytes \<Rightarrow> bool" where
  "carriable mx p \<longleftrightarrow> stream_valid p \<and> 4 + length p \<le> mx"

definition good_payload :: "nat \<Rightarrow> bytes \<Rightarrow> bool" where
  "good_payload mx b \<longleftrightarrow> snd (decodeStreamBatch b) \<and> length b \<le> mx"

definition unbatch :: "bytes \<Rightarrow> bytes list" where
  "unbatch b = fst (decodeStreamBatch b)"

text \<open>The packets that are between the producers and the sender, in order.\<close>

definition in_flight :: "'ss writer \<Rightarrow> bytes list" where
  "in_flight w =
     (case w_pending w of None \<Rightarrow> [] | Some b \<Rightarrow> unbatch b) @
     (case w_overflow w of None \<Rightarrow> [] | Some p \<Rightarrow> [p]) @ sp_queue (w_port w)"

definition writer_inv :: "nat \<Rightarrow> 'ss writer \<Rightarrow> bool" where
  "writer_inv mx w \<longleftrightarrow>
     w_in w = concat (map unbatch (w_data w)) @ in_flight w \<and> list_all (carriable mx) (w_in w) \<and>
     list_all (good_payload mx) (w_data w) \<and>
     (case w_pending w of None \<Rightarrow> True | Some b \<Rightarrow> good_payload mx b) \<and>
     (w_pc w = WIdle \<longrightarrow> w_pending w = None \<and> w_overflow w = None)"


lemma writer_inv_new: "list_all (carriable mx) (sp_queue p) \<Longrightarrow> writer_inv mx (new_writer p)"
  by (simp add: writer_inv_def new_writer_def in_flight_def)

text \<open>What the invariant says when a batch is pending, and when none is.\<close>

definition settled :: "nat \<Rightarrow> 'ss writer \<Rightarrow> bool" where
  "settled mx w \<longleftrightarrow>
     w_in w = concat (map unbatch (w_data w)) @ in_flight w \<and> list_all (carriable mx) (w_in w) \<and>
     list_all (good_payload mx) (w_data w) \<and>
     (case w_pending w of None \<Rightarrow> True | Some b \<Rightarrow> good_payload mx b)"

lemma writer_inv_settled: "writer_inv mx w \<longleftrightarrow> settled mx w \<and> (w_pc w = WIdle \<longrightarrow> w_pending w = None \<and> w_overflow w = None)"
  by (auto simp: writer_inv_def settled_def)

lemma writer_inv_wait: "settled mx w \<Longrightarrow> writer_inv mx (w_wait w)"
  by (auto simp: writer_inv_settled settled_def w_wait_def in_flight_def)

lemma writer_inv_encode:
  assumes "w_in w = concat (map unbatch (w_data w)) @ first # sp_queue (w_port w)" "list_all (carriable (we_max env)) (w_in w)"
    "list_all (good_payload (we_max env)) (w_data w)" "w_overflow w = None" "w_pending w = None"
  shows "writer_inv (we_max env) (w_encode env first w)"
proof -
  obtain batch overflow left where e: "encodeStreamBatch (we_max env) first (sp_queue (w_port w)) = (batch, overflow, left)"
    by (cases "encodeStreamBatch (we_max env) first (sp_queue (w_port w))") auto
  have v: "list_all stream_valid (first # sp_queue (w_port w))" "4 + length first \<le> we_max env"
    using assms(1,2) by (auto simp: carriable_def list_all_iff)
  from encodeStreamBatch_packs [OF v e] obtain taken where
    "decodeStreamBatch batch = (first # taken, True)"
    "sp_queue (w_port w) = taken @ (case overflow of None \<Rightarrow> left | Some p \<Rightarrow> p # left)" "length batch \<le> we_max env"
    by blast
  with assms show ?thesis
    unfolding w_encode_def e
    by (auto intro!: writer_inv_wait simp: settled_def in_flight_def unbatch_def good_payload_def split: option.split)
qed

lemma writer_inv_top: "settled (we_max env) w \<Longrightarrow> writer_inv (we_max env) (w_top env w)"
proof (cases "w_pending w")
  case None
  assume s: "settled (we_max env) w"
  show ?thesis
  proof (cases "w_overflow w")
    case (Some first)
    with None s have "writer_inv (we_max env) (w_encode env first (w\<lparr>w_overflow := None\<rparr>))"
      by (intro writer_inv_encode) (auto simp: settled_def in_flight_def)
    with None Some show ?thesis by (simp add: w_top_def)
  qed (use None s in \<open>auto simp: w_top_def writer_inv_settled settled_def in_flight_def\<close>)
qed (simp add: w_top_def writer_inv_wait)

text \<open>A change of the port that keeps its queue keeps what is in flight.\<close>

lemma settled_port:
  "settled mx w \<Longrightarrow> sp_queue p = sp_queue (w_port w) \<Longrightarrow> settled mx (w\<lparr>w_port := p\<rparr>)"
  by (auto simp: settled_def in_flight_def)

lemma queue_frame [simp]:
  "sp_queue (lose_path err p) = sp_queue p" "sp_queue (fst (failPath s e er p)) = sp_queue p"
  "sp_queue (fst (failPathIfAckUnchanged s e a wn er p)) = sp_queue p"
  by (auto simp: failPath_def failPathIfAckUnchanged_def port_op_defs split: option.splits)

lemma dataForReadyPath_queue: "dataForReadyPath sdk payload p = (q, r) \<Longrightarrow> sp_queue q = sp_queue p"
  by (auto simp: dataForReadyPath_def Let_def split: prod.splits if_splits)

lemma port_do_queue:
  assumes "\<not> writers_own ev"
  shows "sp_queue (port_do sdk ev p) = sp_queue p @
    (case ev of EvEnqueue packet \<Rightarrow> if snd (enqueueReady p packet) then [packet] else [] | _ \<Rightarrow> [])"
  using assms
  by (cases ev) (auto simp: port_defs port_op_defs markPathLostWithError_def split: prod.splits option.splits list.splits)


lemma settled_cong:
  "settled mx w \<Longrightarrow> w_in t = w_in w \<Longrightarrow> w_data t = w_data w \<Longrightarrow> w_pending t = w_pending w \<Longrightarrow>
   w_overflow t = w_overflow w \<Longrightarrow> sp_queue (w_port t) = sp_queue (w_port w) \<Longrightarrow> settled mx t"
  unfolding settled_def in_flight_def by auto

lemma writer_inv_cong:
  "writer_inv mx w \<Longrightarrow> w_in t = w_in w \<Longrightarrow> w_data t = w_data w \<Longrightarrow> w_pending t = w_pending w \<Longrightarrow>
   w_overflow t = w_overflow w \<Longrightarrow> sp_queue (w_port t) = sp_queue (w_port w) \<Longrightarrow>
   w_pc t \<noteq> WIdle \<or> w_pc w = WIdle \<Longrightarrow> writer_inv mx t"
  unfolding writer_inv_def in_flight_def by auto

lemma writer_inv_tick: "writer_inv mx w \<Longrightarrow> w_pc w = WIdle \<Longrightarrow> writer_inv mx (w_tick env now w)"
  by (erule writer_inv_cong) (auto simp: w_tick_def Let_def split: prod.splits)

lemma settled_of: "writer_inv mx w \<Longrightarrow> settled mx w"
  by (simp add: writer_inv_settled)

lemma writer_inv_offer:
  assumes "writer_inv (we_max env) w" "w_pending w = Some pending" "w_pc w = WReady c"
  shows "writer_inv (we_max env) (w_offer env pending w)"
proof -
  obtain port r where d: "dataForReadyPath (we_sdk env) pending (w_port w) = (port, r)" by force
  note q = dataForReadyPath_queue [OF d]
  have s: "settled (we_max env) (w\<lparr>w_port := port\<rparr>)" by (rule settled_port [OF settled_of [OF assms(1)] q])
  show ?thesis
  proof (cases r)
    case None
    with s d show ?thesis by (simp add: w_offer_def writer_inv_top)
  next
    case (Some x)
    obtain session frame err where x: "x = (session, frame, err)" by (cases x)
    show ?thesis
    proof (cases err)
      case None
      with s d Some x assms(2) show ?thesis
        by (auto simp: w_offer_def Let_def writer_inv_settled settled_def in_flight_def)
    next
      case (Some e)
      have "writer_inv (we_max env) (w\<lparr>w_port := port, w_stalled := stall_reset, w_pc := WRefused session (fr_Epoch frame) e\<rparr>)"
        by (rule writer_inv_cong [OF assms(1)]) (simp_all add: q)
      moreover have "writer_inv (we_max env) (w\<lparr>w_port := port, w_pc := WFull session\<rparr>)"
        by (rule writer_inv_cong [OF assms(1)]) (simp_all add: q)
      ultimately show ?thesis
        using d \<open>r = Some x\<close> x Some by (simp add: w_offer_def Let_def)
    qed
  qed
qed

lemma writer_inv_full:
  assumes "writer_inv (we_max env) w" "w_pc w = WFull session"
  shows "writer_inv (we_max env) (w_full env session now w)"
proof (cases "ackProgress session (w_port w)")
  case None
  have "settled (we_max env) (w\<lparr>w_stalled := stall_reset\<rparr>)"
    by (rule settled_cong [OF settled_of [OF assms(1)]]) simp_all
  with None show ?thesis by (simp add: w_full_def writer_inv_top)
next
  case (Some x)
  obtain e a wn where x: "x = (e, a, wn)" by (cases x)
  obtain st stalled where o': "stall_observe (session, e, a, wn) now (we_timeout env) (w_stalled w) = (st, stalled)" by force
  have "writer_inv (we_max env) (w\<lparr>w_stalled := st, w_pc := WStale False session e a wn\<rparr>)"
    by (rule writer_inv_cong [OF assms(1)]) simp_all
  moreover have "writer_inv (we_max env) (w\<lparr>w_stalled := st, w_pc := WCredit\<rparr>)"
    by (rule writer_inv_cong [OF assms(1)]) simp_all
  ultimately show ?thesis using Some x o' by (simp add: w_full_def writer_inv_top)
qed

lemma writer_inv_stale: "writer_inv (we_max env) w \<Longrightarrow> writer_inv (we_max env) (w_stale env idle session e a wn w)"
  unfolding w_stale_def Let_def
  by (rule writer_inv_top, rule settled_cong [OF settled_of], assumption) simp_all

lemma writer_inv_refused: "writer_inv (we_max env) w \<Longrightarrow> writer_inv (we_max env) (w_refused env session epoch e w)"
  unfolding w_refused_def by (rule writer_inv_top, rule settled_cong [OF settled_of], assumption) simp_all

lemma writer_inv_look: "writer_inv mx w \<Longrightarrow> writer_inv mx (w_look w)"
  unfolding w_look_def by (erule writer_inv_cong) simp_all

lemma writer_inv_absorb:
  assumes "writer_inv (we_max env) w" "w_pending w = Some pending"
  shows "writer_inv (we_max env) (w_absorb env pending w)"
proof (cases "w_overflow w = None")
  case False
  then show ?thesis unfolding w_absorb_def if_not_P [OF False] by (intro writer_inv_top settled_of [OF assms(1)])
next
  case True
  obtain batch overflow left where a: "appendStreamBatch (we_max env) pending (sp_queue (w_port w)) = (batch, overflow, left)"
    by (cases "appendStreamBatch (we_max env) pending (sp_queue (w_port w))") auto
  from settled_of [OF assms(1)] have s: "w_in w = concat (map unbatch (w_data w)) @ unbatch pending @ sp_queue (w_port w)"
    "list_all (carriable (we_max env)) (w_in w)" "list_all (good_payload (we_max env)) (w_data w)"
    "good_payload (we_max env) pending"
    using assms(2) True by (auto simp: settled_def in_flight_def)
  have "decodeStreamBatch pending = (unbatch pending, True)" "length pending \<le> we_max env"
    using s(4) by (auto simp: good_payload_def unbatch_def prod_eq_iff)
  moreover have "list_all stream_valid (sp_queue (w_port w))"
    using s(1,2) by (auto simp: carriable_def list_all_iff)
  ultimately obtain taken where t: "decodeStreamBatch batch = (unbatch pending @ taken, True)"
    "sp_queue (w_port w) = taken @ (case overflow of None \<Rightarrow> left | Some p \<Rightarrow> p # left)" "length batch \<le> we_max env"
    using appendStreamBatch_packs [OF _ _ _ a] by blast
  have "settled (we_max env) (w\<lparr>w_pending := Some batch, w_overflow := overflow, w_port := (w_port w)\<lparr>sp_queue := left\<rparr>\<rparr>)"
    using s t by (auto simp: settled_def in_flight_def unbatch_def good_payload_def split: option.split)
  then show ?thesis using True a by (simp add: w_absorb_def writer_inv_top)
qed

lemma writer_inv_result:
  assumes "writer_inv (we_max env) w" shows "writer_inv (we_max env) (w_result env session frame err w)"
  unfolding w_result_def
  by (rule writer_inv_top, rule settled_cong [OF settled_of [OF assms]]) (auto split: option.split)

text \<open>The packets other goroutines enqueue can be carried.\<close>

fun carriable_event :: "nat \<Rightarrow> writer_event \<Rightarrow> bool" where
  "carriable_event mx (WOther (EvEnqueue packet)) = carriable mx packet"
| "carriable_event mx ev = True"

lemma writer_inv_other:
  assumes "writer_inv (we_max env) w" "carriable_event (we_max env) (WOther ev)"
  shows "writer_inv (we_max env) (writer_on_port env ev w)"
proof (cases "writers_own ev")
  case False
  define new where "new = (case ev of EvEnqueue packet \<Rightarrow> if snd (enqueueReady (w_port w) packet) then [packet] else [] | _ \<Rightarrow> [])"
  have "list_all (carriable (we_max env)) new" using assms(2) by (auto simp: new_def split: port_event.split)
  with assms(1) False show ?thesis
    by (auto simp: writer_on_port_def writer_inv_def in_flight_def port_do_queue [OF False] simp flip: new_def)
qed (use assms in \<open>simp add: writer_on_port_def\<close>)

lemma writer_inv_do:
  assumes "writer_inv (we_max env) w" "carriable_event (we_max env) ev"
  shows "writer_inv (we_max env) (writeStreamLoop env ev w)"
proof (cases ev)
  case WRecv
  show ?thesis
  proof (cases "w_pc w = WIdle \<and> sp_queue (w_port w) \<noteq> []")
    case True
    then obtain first queue where q: "sp_queue (w_port w) = first # queue" by (cases "sp_queue (w_port w)") auto
    have "writer_inv (we_max env) (w_encode env first (w\<lparr>w_port := (w_port w)\<lparr>sp_queue := queue\<rparr>\<rparr>))"
      using assms(1) True q by (intro writer_inv_encode) (auto simp: writer_inv_def in_flight_def)
    with True q WRecv show ?thesis by simp
  next
    case False
    with WRecv assms(1) show ?thesis by (auto split: writer_pc.split list.split)
  qed
next
  case WDone
  have "writer_inv (we_max env) (w\<lparr>w_pc := WReturned\<rparr>)" by (rule writer_inv_cong [OF assms(1)]) simp_all
  with WDone assms(1) show ?thesis by (auto split: writer_pc.split)
next
  case WWoken
  have "writer_inv (we_max env) (w\<lparr>w_port := (w_port w)\<lparr>sp_wake := False\<rparr>\<rparr>)" by (rule writer_inv_cong [OF assms(1)]) simp_all
  with WWoken assms(1) show ?thesis by (auto intro: writer_inv_absorb split: writer_pc.split option.split)
next
  case WPathReady
  with assms(1) show ?thesis by (auto intro: writer_inv_offer split: writer_pc.split option.split)
next
  case (WCheck now)
  with assms(1) show ?thesis by (auto intro: writer_inv_full split: writer_pc.split)
next
  case WFail
  with assms(1) show ?thesis by (auto intro: writer_inv_stale writer_inv_refused split: writer_pc.split)
next
  case WTimeout
  with assms(1) show ?thesis by (auto intro: writer_inv_absorb split: writer_pc.split option.split)
next
  case (WSendResult err)
  with assms(1) show ?thesis by (auto intro: writer_inv_result split: writer_pc.split)
qed (use assms in \<open>auto intro: writer_inv_tick writer_inv_look writer_inv_other\<close>)


section \<open>The writer refines a FIFO channel\<close>

text \<open>The abstract channel: what was accepted and not taken yet, and what was taken, in order. A
  packet is put at the back or a run of packets is taken from the front.\<close>

inductive fifo_step :: "bytes list \<times> bytes list \<Rightarrow> bytes list \<times> bytes list \<Rightarrow> bool" where
  put: "fifo_step (queue, taken) (queue @ [packet], taken)"
| take_run: "fifo_step (run @ queue, taken) (queue, taken @ run)"

inductive_simps fifo_step_simps: "fifo_step (queue, taken) (queue', taken')"

definition fifo_of :: "'ss writer \<Rightarrow> bytes list \<times> bytes list" where
  "fifo_of w = (in_flight w, concat (map unbatch (w_data w)))"

inductive writer_step :: "'ss writer_env \<Rightarrow> 'ss writer \<Rightarrow> 'ss writer \<Rightarrow> bool" for env where
  writer_event: "carriable_event (we_max env) ev \<Longrightarrow> writer_step env w (writeStreamLoop env ev w)"

inductive_cases writer_stepE: "writer_step env w t"

lemma writer_run_steps:
  "list_all (carriable_event (we_max env)) evs \<Longrightarrow> (writer_step env)\<^sup>*\<^sup>* w (writer_run env evs w)"
  by (induction evs arbitrary: w) (auto intro: converse_rtranclp_into_rtranclp writer_event)

text \<open>An event gives the sender a payload, or lets a packet in, or neither.\<close>

lemma top_frame: "w_in (w_top env w) = w_in w \<and> w_data (w_top env w) = w_data w"
  by (auto simp: w_top_def w_wait_def w_encode_def split: option.split prod.splits)

lemma writer_frame:
  "w_in (writeStreamLoop env ev w) = w_in w \<and> (\<exists>out. w_data (writeStreamLoop env ev w) = w_data w @ out) \<or>
   w_data (writeStreamLoop env ev w) = w_data w \<and> (\<exists>p. w_in (writeStreamLoop env ev w) = w_in w @ [p])"
proof (cases ev)
  case (WOther pe)
  then show ?thesis by (auto simp: writer_on_port_def split: port_event.split)
next
  case WRecv
  then show ?thesis by (auto simp: w_encode_def w_wait_def split: writer_pc.split list.split prod.splits)
next
  case (WTick now)
  then show ?thesis by (auto simp: w_tick_def Let_def split: prod.splits)
next
  case WPathReady
  then show ?thesis by (auto simp: w_offer_def top_frame Let_def split: writer_pc.split option.split prod.splits)
next
  case WLookPath
  then show ?thesis by (simp add: w_look_def)
next
  case WFail
  then show ?thesis by (auto simp: w_stale_def w_refused_def top_frame Let_def split: writer_pc.split)
next
  case (WCheck now)
  then show ?thesis by (auto simp: w_full_def top_frame Let_def split: writer_pc.split option.split prod.splits)
next
  case WWoken
  then show ?thesis by (auto simp: w_absorb_def top_frame split: writer_pc.split option.split prod.splits)
next
  case WTimeout
  then show ?thesis by (auto simp: w_absorb_def top_frame split: writer_pc.split option.split prod.splits)
next
  case (WSendResult err)
  then show ?thesis by (auto simp: w_result_def top_frame split: writer_pc.split option.split)
next
  case WDone
  then show ?thesis by (auto split: writer_pc.split)
qed

lemma writer_sim:
  assumes "writer_inv (we_max env) w" "writer_step env w t"
  shows "fifo_step\<^sup>*\<^sup>* (fifo_of w) (fifo_of t)"
proof -
  from assms(2) obtain ev where ev: "t = writeStreamLoop env ev w" "carriable_event (we_max env) ev"
    by (rule writer_stepE)
  have w: "w_in w = concat (map unbatch (w_data w)) @ in_flight w"
    and t: "w_in t = concat (map unbatch (w_data t)) @ in_flight t"
    using assms(1) writer_inv_do [OF assms(1) ev(2)] by (simp_all add: writer_inv_def ev(1))
  from writer_frame [of env ev w] consider
      out where "w_in t = w_in w" "w_data t = w_data w @ out"
    | p where "w_data t = w_data w" "w_in t = w_in w @ [p]" unfolding ev(1) by blast
  then have "fifo_step (fifo_of w) (fifo_of t)"
  proof cases
    case 1
    then have "in_flight w = concat (map unbatch out) @ in_flight t" using w t by simp
    then show ?thesis using 1 by (simp add: fifo_of_def fifo_step.take_run)
  next
    case 2
    then have "in_flight t = in_flight w @ [p]" using w t by simp
    then show ?thesis using 2 by (simp add: fifo_of_def fifo_step.put)
  qed
  then show ?thesis by blast
qed

interpretation writer: simulation "writer_step env" "writer_inv (we_max env)" fifo_step fifo_of for env
proof
  fix w t :: "'a writer"
  assume "writer_inv (we_max env) w" "writer_step env w t"
  then show "writer_inv (we_max env) t" by (auto elim!: writer_stepE simp: writer_inv_do)
qed (rule writer_sim)

lemma fifo_of_new: "fifo_of (new_writer p) = (sp_queue p, [])"
  by (simp add: fifo_of_def new_writer_def in_flight_def)

text \<open>C1. The writer of a stream refines a FIFO channel. Whatever happens to the path, the window and
  the sends, and however producers and network interleave with it: the packets the SDK's sender has
  taken, followed by those in the batch, the overflow packet and the queue, are the accepted packets
  in order, so none is lost, duplicated or overtaken before it reaches the sender; and every payload
  the sender got is a well-formed batch within the frame limit.\<close>

theorem writer_refines_fifo:
  assumes "list_all (carriable (we_max env)) (sp_queue p)" "list_all (carriable_event (we_max env)) evs"
  shows "(let w = writer_run env evs (new_writer p) in
           fifo_step\<^sup>*\<^sup>* (sp_queue p, []) (fifo_of w) \<and>
           w_in w = snd (fifo_of w) @ fst (fifo_of w) \<and>
           list_all (\<lambda>b. snd (decodeStreamBatch b) \<and> length b \<le> we_max env) (w_data w))"
proof -
  have inv: "writer_inv (we_max env) (new_writer p)" by (rule writer_inv_new [OF assms(1)])
  note run = writer_run_steps [OF assms(2), of "new_writer p"]
  have "fifo_step\<^sup>*\<^sup>* (sp_queue p, []) (fifo_of (writer_run env evs (new_writer p)))"
    using writer.run_sim [OF run inv] by (simp add: fifo_of_new)
  moreover have "writer_inv (we_max env) (writer_run env evs (new_writer p))" by (rule writer.run_inv [OF run inv])
  ultimately show ?thesis by (simp add: Let_def writer_inv_def fifo_of_def good_payload_def list_all_iff)
qed

text \<open>Two packets are queued, sent as one batch on a ready path, and a third one follows.\<close>

theorem writer_refines_fifo_witness:
  "(let env = \<lparr>we_max = 64, we_timeout = 5, we_sdk = counting_sender\<rparr>; s = SessionRef 1 ''s'';
        p = port_run counting_sender [EvBeginOpen s, EvOpenAck s 1] (new_port (UserRef 1 2) ''id'' 0 4);
        w = writer_run env [WOther (EvEnqueue [1]), WOther (EvEnqueue [2, 3]), WRecv, WOther (EvEnqueue [4]), WLookPath, WPathReady]
              (new_writer p)
    in fifo_of w = ([[4]], [[1], [2, 3]]) \<and> fifo_step\<^sup>*\<^sup>* ([], []) (fifo_of w))"
proof -
  let ?env = "\<lparr>we_max = 64, we_timeout = 5, we_sdk = counting_sender\<rparr>" and ?s = "SessionRef 1 ''s''"
  let ?p = "port_run counting_sender [EvBeginOpen ?s, EvOpenAck ?s 1] (new_port (UserRef 1 2) ''id'' 0 4)"
  let ?evs = "[WOther (EvEnqueue [1]), WOther (EvEnqueue [2, 3]), WRecv, WOther (EvEnqueue [4]), WLookPath, WPathReady]"
  have p: "?p = (new_port (UserRef 1 2) ''id'' 0 4)\<lparr>sp_targetSession := ?s, sp_readyState := True,
     sp_ready := 2, sp_attemptErr := 3, sp_fresh := 4, sp_closed := {2}\<rparr>"
    by (simp add: port_defs port_op_defs new_port_def)
  have "sp_queue ?p = []" unfolding p by (simp add: new_port_def)
  moreover have "fifo_of (writer_run ?env ?evs (new_writer ?p)) = ([[4]], [[1], [2, 3]])"
    unfolding p
    by (simp add: new_port_def new_writer_def writer_on_port_def enqueueReady_def sp_enqueue_def chan_offer_def
        w_encode_def encodeStreamBatch_def appendStreamBatch_def appendStreamPacket_def isStreamBatch_def
        streamPacketMagic_def putUint16_def drop_bit_eq_div w_wait_def w_look_def currentPath_def w_offer_def
        dataForReadyPath_def counting_sender_def zero_frame_def fifo_of_def in_flight_def unbatch_def
        decodeStreamBatch_def decodeStreamLoop.simps getUint16_def)
  ultimately show ?thesis
    using writer_refines_fifo [of ?env ?p ?evs] by (simp add: Let_def carriable_def stream_valid_def)
qed

end
