(* ===== verification/Lifecycle.thy ===== *)
theory Lifecycle
  imports Runtime
begin

text \<open>
  A peer's stream lifecycle, \<open>streamLoop\<close>, \<open>runStream\<close> and \<open>recoverStream\<close> of
  internal/tun/stream.go, and the relay dial loop of internal/tun/runtime.go that runs beside it.
  Each goroutine is a program counter over its blocking points: what it does from one to the next
  is one step, and between two steps any other goroutine may act. An event that is not possible
  at the present point leaves the state alone.
\<close>

section \<open>The sessions a stream may be opened to\<close>

record resolved_session =
  rs_Session :: session_ref
  rs_TransientCapable :: bool

fun transient_loop :: "(session_ref \<Rightarrow> bool) \<Rightarrow> session_ref set \<Rightarrow> resolved_session list \<Rightarrow> session_ref list" where
  "transient_loop isZero seen [] = []"
| "transient_loop isZero seen (candidate # candidates) =
     (if \<not> rs_TransientCapable candidate \<or> isZero (rs_Session candidate) then transient_loop isZero seen candidates
      else if rs_Session candidate \<in> seen then transient_loop isZero seen candidates
      else rs_Session candidate # transient_loop isZero (insert (rs_Session candidate) seen) candidates)"

definition transientStreamSessions :: "(session_ref \<Rightarrow> bool) \<Rightarrow> resolved_session list \<Rightarrow> session_ref list" where
  "transientStreamSessions isZero sessions = transient_loop isZero {} sessions"

section \<open>The state of a lifecycle\<close>

datatype streamRunResult = streamRunStopped | streamRunRestart | streamRunFallback

text \<open>An attempt to open or resume on one candidate: the port, the candidate, the ones behind it,
  and the two channels the attempt waits on.\<close>

record attempt =
  at_pid :: nat
  at_session :: session_ref
  at_rest :: "session_ref list"
  at_ready :: nat
  at_errs :: nat

text \<open>The blocking points: the head of \<open>streamLoop\<close>, an RPC that resolves the sessions, the stream ID,
  a send, a wait for its answer, the main select, the pause before a retry. The first argument of
  the points of \<open>runStream\<close> is the preferred session it began with, the arguments of those of
  \<open>recoverStream\<close> the epoch of the Resume and the frames to send again.\<close>

datatype life_pc =
    LTop
  | LResolve session_ref
  | LNewID session_ref "session_ref list"
  | LOpenSend session_ref attempt
  | LOpenWait session_ref attempt
  | LRun nat
  | LRecResolve nat
  | LResumeSend u64 "stream_frame list" attempt
  | LResumeWait u64 "stream_frame list" attempt
  | LReplay u64 "stream_frame list" attempt
  | LSleep
  | LReturned

record ('ss, 'rs) lifecycle =
  lc_rt :: "('ss, 'rs) runtime"
  lc_pc :: life_pc
  lc_active :: bool
  lc_ctxDone :: bool
  lc_fallback :: bool

type_synonym ('ss, 'rs) lc = "('ss, 'rs) lifecycle"

record ('ss, 'rs) life_env =
  le_sdk :: "('ss, 'rs) stream_sdk"
  le_peer :: peer_config

datatype life_event =
    EvGo
  | EvResolved "stream_error + resolved_session list"
  | EvNewID "stream_id option"
  | EvSent "stream_error option"
  | EvAttemptErr
  | EvTimeout
  | EvReady
  | EvRestarted
  | EvDone
  | EvPathLost
  | EvCtxDone
  | EvSlept

abbreviation le_target :: "('ss, 'rs) life_env \<Rightarrow> user_ref" where
  "le_target env \<equiv> peer_ref (le_peer env)"

abbreviation le_isZero :: "('ss, 'rs) life_env \<Rightarrow> session_ref \<Rightarrow> bool" where
  "le_isZero env \<equiv> sdk_isZero (le_sdk env)"

abbreviation on_rt :: "(('ss, 'rs) rt \<Rightarrow> ('ss, 'rs) rt) \<Rightarrow> ('ss, 'rs) lc \<Rightarrow> ('ss, 'rs) lc" where
  "on_rt f s \<equiv> s\<lparr>lc_rt := f (lc_rt s)\<rparr>"

abbreviation go :: "life_pc \<Rightarrow> ('ss, 'rs) lc \<Rightarrow> ('ss, 'rs) lc" where
  "go pc s \<equiv> s\<lparr>lc_pc := pc\<rparr>"

abbreviation lc_port :: "('ss, 'rs) lc \<Rightarrow> nat \<Rightarrow> 'ss stream_port" where
  "lc_port s pid \<equiv> sport (lc_rt s) pid"

section \<open>Leaving runStream\<close>

text \<open>\<open>streamLoop\<close> returns: its deferred \<open>stopFallback\<close> cancels the dial loop and waits for it.\<close>

definition lc_return :: "('ss, 'rs) lc \<Rightarrow> ('ss, 'rs) lc" where
  "lc_return s = go LReturned (s\<lparr>lc_fallback := False\<rparr>)"

text \<open>The switch of \<open>streamLoop\<close> on the result of \<open>runStream\<close>.\<close>

definition lc_switch :: "streamRunResult \<Rightarrow> ('ss, 'rs) lc \<Rightarrow> ('ss, 'rs) lc" where
  "lc_switch result s =
     (case result of
        streamRunRestart \<Rightarrow> go LTop s
      | streamRunFallback \<Rightarrow> go LSleep s
      | streamRunStopped \<Rightarrow> lc_return s)"

text \<open>A return of \<open>runStream\<close> behind its \<open>defer\<close>.\<close>

definition lc_finish :: "('ss, 'rs) life_env \<Rightarrow> nat \<Rightarrow> streamRunResult \<Rightarrow> ('ss, 'rs) lc \<Rightarrow> ('ss, 'rs) lc" where
  "lc_finish env pid result s =
     lc_switch result (on_rt (removePort (le_target env) pid (lc_active s)) s\<lparr>lc_active := False\<rparr>)"

section \<open>Opening\<close>

definition stream_open :: "('ss, 'rs) life_env \<Rightarrow> nat \<Rightarrow> ('ss, 'rs) lc \<Rightarrow> stream_frame" where
  "stream_open env pid s =
     zero_frame\<lparr>fr_Kind := KOpen, fr_ID := sp_id (lc_port s pid), fr_Epoch := 1,
       fr_Window := streamWindow (le_sdk env) (lc_rt s)\<rparr>"

text \<open>The loop over the candidates, up to the send to the next one, or the end of \<open>runStream\<close> behind the
  last one.\<close>

fun lc_open :: "('ss, 'rs) life_env \<Rightarrow> session_ref \<Rightarrow> nat \<Rightarrow> session_ref list \<Rightarrow> ('ss, 'rs) lc \<Rightarrow> ('ss, 'rs) lc" where
  "lc_open env preferred pid [] s =
     (let s = (if \<not> le_isZero env preferred then on_rt (forgetPreferred (le_target env) preferred) s else s)
      in lc_finish env pid streamRunFallback s)"
| "lc_open env preferred pid (candidate # rest) s =
     (let (_, ready, errs) = beginOpen candidate (lc_port s pid);
          s = on_rt (on_sport pid (\<lambda>p. fst (beginOpen candidate p))) s;
          s = on_rt (sendStreamFrame (le_target env) candidate (stream_open env pid s)) s
      in go (LOpenSend preferred \<lparr>at_pid = pid, at_session = candidate, at_rest = rest, at_ready = ready, at_errs = errs\<rparr>) s)"

definition lc_candidates :: "session_ref \<Rightarrow> session_ref list \<Rightarrow> ('ss, 'rs) lc \<Rightarrow> ('ss, 'rs) lc" where
  "lc_candidates preferred candidates s =
     (if candidates = [] then lc_switch streamRunFallback s else go (LNewID preferred candidates) s)"

definition preferredSession :: "user_ref \<Rightarrow> ('ss, 'rs) rt \<Rightarrow> session_ref" where
  "preferredSession target r = (case r_preferredStreams r target of None \<Rightarrow> zero_session | Some s \<Rightarrow> s)"

text \<open>The head of \<open>streamLoop\<close> and the start of \<open>runStream\<close>.\<close>

fun at_top :: "('ss, 'rs) life_env \<Rightarrow> life_event \<Rightarrow> ('ss, 'rs) lc \<Rightarrow> ('ss, 'rs) lc" where
  "at_top env EvGo s =
     (if lc_ctxDone s then lc_return s
      else let preferred = preferredSession (le_target env) (lc_rt s); s = s\<lparr>lc_active := False\<rparr>
           in if le_isZero env preferred then go (LResolve preferred) s else lc_candidates preferred [preferred] s)"
| "at_top env _ s = s"

fun at_resolve :: "('ss, 'rs) life_env \<Rightarrow> session_ref \<Rightarrow> life_event \<Rightarrow> ('ss, 'rs) lc \<Rightarrow> ('ss, 'rs) lc" where
  "at_resolve env preferred (EvResolved (Inl err)) s = lc_switch streamRunFallback s"
| "at_resolve env preferred (EvResolved (Inr sessions)) s =
     lc_candidates preferred (transientStreamSessions (le_isZero env) sessions) s"
| "at_resolve env preferred _ s = s"

fun at_new_id :: "('ss, 'rs) life_env \<Rightarrow> session_ref \<Rightarrow> session_ref list \<Rightarrow> life_event \<Rightarrow> ('ss, 'rs) lc \<Rightarrow> ('ss, 'rs) lc" where
  "at_new_id env preferred candidates (EvNewID None) s = lc_switch streamRunFallback s"
| "at_new_id env preferred candidates (EvNewID (Some sid)) s =
     (let (r, pid) = installPort (le_sdk env) (le_target env) sid (lc_rt s)
      in lc_open env preferred pid candidates (s\<lparr>lc_rt := r\<rparr>))"
| "at_new_id env preferred candidates _ s = s"

fun at_open_send :: "('ss, 'rs) life_env \<Rightarrow> session_ref \<Rightarrow> attempt \<Rightarrow> life_event \<Rightarrow> ('ss, 'rs) lc \<Rightarrow> ('ss, 'rs) lc" where
  "at_open_send env preferred at (EvSent None) s = go (LOpenWait preferred at) s"
| "at_open_send env preferred at (EvSent (Some err)) s = lc_open env preferred (at_pid at) (at_rest at) s"
| "at_open_send env preferred at _ s = s"

text \<open>What \<open>port.done\<close> means to \<open>runStream\<close>.\<close>

definition done_result :: "'ss stream_port \<Rightarrow> streamRunResult" where
  "done_result p = (if restartRequested p then streamRunRestart else streamRunStopped)"

definition lc_activate :: "('ss, 'rs) life_env \<Rightarrow> nat \<Rightarrow> ('ss, 'rs) lc \<Rightarrow> ('ss, 'rs) lc" where
  "lc_activate env pid s = go (LRun pid) (on_rt (activateStream (le_target env) pid) s\<lparr>lc_active := True\<rparr>)"

definition take_err :: "attempt \<Rightarrow> ('ss, 'rs) lc \<Rightarrow> ('ss, 'rs) lc" where
  "take_err at s = on_rt (on_sport (at_pid at) (\<lambda>p. p\<lparr>sp_errs := (sp_errs p)(at_errs at := tl (sp_errs p (at_errs at)))\<rparr>)) s"

fun at_open_wait :: "('ss, 'rs) life_env \<Rightarrow> session_ref \<Rightarrow> attempt \<Rightarrow> life_event \<Rightarrow> ('ss, 'rs) lc \<Rightarrow> ('ss, 'rs) lc" where
  "at_open_wait env preferred at EvAttemptErr s =
     (if sp_errs (lc_port s (at_pid at)) (at_errs at) \<noteq> []
      then lc_open env preferred (at_pid at) (at_rest at) (take_err at s) else s)"
| "at_open_wait env preferred at EvTimeout s = lc_open env preferred (at_pid at) (at_rest at) s"
| "at_open_wait env preferred at EvReady s =
     (if at_ready at \<in> sp_closed (lc_port s (at_pid at)) then lc_activate env (at_pid at) s else s)"
| "at_open_wait env preferred at EvRestarted s =
     (if sp_restart (lc_port s (at_pid at)) then lc_finish env (at_pid at) streamRunRestart s else s)"
| "at_open_wait env preferred at EvDone s =
     (if sp_done (lc_port s (at_pid at)) then lc_finish env (at_pid at) (done_result (lc_port s (at_pid at))) s else s)"
| "at_open_wait env preferred at EvCtxDone s =
     (if lc_ctxDone s then lc_finish env (at_pid at) streamRunStopped s else s)"
| "at_open_wait env preferred at _ s = s"

section \<open>Recovering\<close>

text \<open>\<open>recoverStream\<close> has returned false.\<close>

definition lc_rebuild :: "('ss, 'rs) life_env \<Rightarrow> nat \<Rightarrow> ('ss, 'rs) lc \<Rightarrow> ('ss, 'rs) lc" where
  "lc_rebuild env pid s = lc_finish env pid (if lc_ctxDone s then streamRunStopped else streamRunRestart) s"

text \<open>The context of a port ends with the program's or when the port is closed.\<close>

definition port_ctx_done :: "nat \<Rightarrow> ('ss, 'rs) lc \<Rightarrow> bool" where
  "port_ctx_done pid s \<longleftrightarrow> lc_ctxDone s \<or> sp_cancelled (lc_port s pid)"

definition stream_resume :: "nat \<Rightarrow> u64 \<Rightarrow> u64 \<Rightarrow> ('ss, 'rs) lc \<Rightarrow> stream_frame" where
  "stream_resume pid epoch lastAck s =
     zero_frame\<lparr>fr_Kind := KResume, fr_ID := sp_id (lc_port s pid), fr_Epoch := epoch, fr_Offset := lastAck\<rparr>"

text \<open>The loop over the candidates, up to the send of the next Resume. No goroutine changes the epoch or
  the sender between \<open>nextEpoch\<close>, \<open>beginResume\<close> and \<open>sender.Resume\<close>: the path is not ready, and an Ack
  of the epoch that begins here comes after the Resume that announces it.\<close>

fun lc_resume :: "('ss, 'rs) life_env \<Rightarrow> nat \<Rightarrow> session_ref list \<Rightarrow> ('ss, 'rs) lc \<Rightarrow> ('ss, 'rs) lc" where
  "lc_resume env pid [] s = lc_rebuild env pid s"
| "lc_resume env pid (session # rest) s =
     (if port_ctx_done pid s then lc_rebuild env pid s
      else let epoch = nextEpoch (lc_port s pid);
               (_, lastAck, resumeReady, errs) = beginResume session epoch (lc_port s pid);
               s = on_rt (on_sport pid (\<lambda>p. fst (beginResume session epoch p))) s;
               ((frames, err), sender) = sender_Resume (sdk_sender (le_sdk env)) (sp_sender (lc_port s pid)) epoch lastAck;
               s = on_rt (on_sport pid (\<lambda>p. p\<lparr>sp_sender := sender\<rparr>)) s
           in if err \<noteq> None then lc_rebuild env pid s
              else go (LResumeSend epoch frames \<lparr>at_pid = pid, at_session = session, at_rest = rest, at_ready = resumeReady, at_errs = errs\<rparr>)
                     (on_rt (sendStreamFrame (le_target env) session (stream_resume pid epoch lastAck s)) s))"

definition lc_lost :: "('ss, 'rs) life_env \<Rightarrow> nat \<Rightarrow> ('ss, 'rs) lc \<Rightarrow> ('ss, 'rs) lc" where
  "lc_lost env pid s =
     (let s = on_rt (on_sport pid (\<lambda>p. p\<lparr>sp_lost := False\<rparr>)) s;
          s = (if lc_active s then (on_rt (deactivateStream (le_target env) pid) s)\<lparr>lc_active := False\<rparr> else s)
      in if port_ctx_done pid s then lc_rebuild env pid s else go (LRecResolve pid) s)"

fun at_run :: "('ss, 'rs) life_env \<Rightarrow> nat \<Rightarrow> life_event \<Rightarrow> ('ss, 'rs) lc \<Rightarrow> ('ss, 'rs) lc" where
  "at_run env pid EvCtxDone s = (if lc_ctxDone s then lc_finish env pid streamRunStopped s else s)"
| "at_run env pid EvRestarted s = (if sp_restart (lc_port s pid) then lc_finish env pid streamRunRestart s else s)"
| "at_run env pid EvDone s = (if sp_done (lc_port s pid) then lc_finish env pid (done_result (lc_port s pid)) s else s)"
| "at_run env pid EvPathLost s = (if sp_lost (lc_port s pid) then lc_lost env pid s else s)"
| "at_run env pid _ s = s"

fun at_rec_resolve :: "('ss, 'rs) life_env \<Rightarrow> nat \<Rightarrow> life_event \<Rightarrow> ('ss, 'rs) lc \<Rightarrow> ('ss, 'rs) lc" where
  "at_rec_resolve env pid (EvResolved (Inl err)) s = lc_rebuild env pid s"
| "at_rec_resolve env pid (EvResolved (Inr sessions)) s =
     lc_resume env pid (transientStreamSessions (le_isZero env) sessions) s"
| "at_rec_resolve env pid _ s = s"

fun at_resume_send :: "('ss, 'rs) life_env \<Rightarrow> u64 \<Rightarrow> stream_frame list \<Rightarrow> attempt \<Rightarrow> life_event \<Rightarrow> ('ss, 'rs) lc \<Rightarrow> ('ss, 'rs) lc" where
  "at_resume_send env epoch frames at (EvSent None) s = go (LResumeWait epoch frames at) s"
| "at_resume_send env epoch frames at (EvSent (Some err)) s = lc_resume env (at_pid at) (at_rest at) s"
| "at_resume_send env epoch frames at _ s = s"

text \<open>The frames that were not acknowledged go out again, and the Resume is completed behind the last one.\<close>

fun lc_replay :: "('ss, 'rs) life_env \<Rightarrow> u64 \<Rightarrow> attempt \<Rightarrow> stream_frame list \<Rightarrow> ('ss, 'rs) lc \<Rightarrow> ('ss, 'rs) lc" where
  "lc_replay env epoch at [] s =
     (let (_, ok) = completeResume (at_session at) epoch (lc_port s (at_pid at));
          s = on_rt (on_sport (at_pid at) (\<lambda>p. fst (completeResume (at_session at) epoch p))) s
      in if ok then lc_activate env (at_pid at) s else lc_resume env (at_pid at) (at_rest at) s)"
| "lc_replay env epoch at (frame # frames) s =
     go (LReplay epoch frames at) (on_rt (sendStreamFrame (le_target env) (at_session at) frame) s)"

definition take_token :: "attempt \<Rightarrow> ('ss, 'rs) lc \<Rightarrow> ('ss, 'rs) lc" where
  "take_token at s = on_rt (on_sport (at_pid at) (\<lambda>p. p\<lparr>sp_tokens := (sp_tokens p)(at_ready at := sp_tokens p (at_ready at) - 1)\<rparr>)) s"

fun at_resume_wait :: "('ss, 'rs) life_env \<Rightarrow> u64 \<Rightarrow> stream_frame list \<Rightarrow> attempt \<Rightarrow> life_event \<Rightarrow> ('ss, 'rs) lc \<Rightarrow> ('ss, 'rs) lc" where
  "at_resume_wait env epoch frames at EvReady s =
     (if sp_tokens (lc_port s (at_pid at)) (at_ready at) > 0 then lc_replay env epoch at frames (take_token at s) else s)"
| "at_resume_wait env epoch frames at EvAttemptErr s =
     (if sp_errs (lc_port s (at_pid at)) (at_errs at) \<noteq> []
      then lc_resume env (at_pid at) (at_rest at) (take_err at s) else s)"
| "at_resume_wait env epoch frames at EvTimeout s = lc_resume env (at_pid at) (at_rest at) s"
| "at_resume_wait env epoch frames at EvCtxDone s =
     (if port_ctx_done (at_pid at) s then lc_rebuild env (at_pid at) s else s)"
| "at_resume_wait env epoch frames at _ s = s"

fun at_replay :: "('ss, 'rs) life_env \<Rightarrow> u64 \<Rightarrow> stream_frame list \<Rightarrow> attempt \<Rightarrow> life_event \<Rightarrow> ('ss, 'rs) lc \<Rightarrow> ('ss, 'rs) lc" where
  "at_replay env epoch frames at (EvSent None) s = lc_replay env epoch at frames s"
| "at_replay env epoch frames at (EvSent (Some err)) s = lc_resume env (at_pid at) (at_rest at) s"
| "at_replay env epoch frames at _ s = s"

fun at_sleep :: "life_event \<Rightarrow> ('ss, 'rs) lc \<Rightarrow> ('ss, 'rs) lc" where
  "at_sleep EvSlept s = go LTop s"
| "at_sleep EvCtxDone s = (if lc_ctxDone s then lc_return s else s)"
| "at_sleep _ s = s"

section \<open>streamLoop\<close>

definition streamLoop :: "('ss, 'rs) life_env \<Rightarrow> life_event \<Rightarrow> ('ss, 'rs) lc \<Rightarrow> ('ss, 'rs) lc" where
  "streamLoop env ev s =
     (case lc_pc s of
        LTop \<Rightarrow> at_top env ev s
      | LResolve preferred \<Rightarrow> at_resolve env preferred ev s
      | LNewID preferred candidates \<Rightarrow> at_new_id env preferred candidates ev s
      | LOpenSend preferred at \<Rightarrow> at_open_send env preferred at ev s
      | LOpenWait preferred at \<Rightarrow> at_open_wait env preferred at ev s
      | LRun pid \<Rightarrow> at_run env pid ev s
      | LRecResolve pid \<Rightarrow> at_rec_resolve env pid ev s
      | LResumeSend epoch frames at \<Rightarrow> at_resume_send env epoch frames at ev s
      | LResumeWait epoch frames at \<Rightarrow> at_resume_wait env epoch frames at ev s
      | LReplay epoch frames at \<Rightarrow> at_replay env epoch frames at ev s
      | LSleep \<Rightarrow> at_sleep ev s
      | LReturned \<Rightarrow> s)"

text \<open>The start of \<open>streamLoop\<close>, with the dial loop beside it where this end of the pair dials.\<close>

definition startStreamLoop :: "('ss, 'rs) life_env \<Rightarrow> ('ss, 'rs) rt \<Rightarrow> ('ss, 'rs) lc" where
  "startStreamLoop env r =
     \<lparr>lc_rt = r, lc_pc = LTop, lc_active = False, lc_ctxDone = False,
      lc_fallback = shouldDial (r_localUser r) (le_target env) (peer_DialPolicy (le_peer env))\<rparr>"

section \<open>The lifecycle among the other goroutines\<close>

text \<open>
  Another goroutine may do whatever the runtime allows as long as it leaves the peer's entry in
  \<open>streamPorts\<close> alone and at most empties the one in \<open>activeStreams\<close>: only the peer's own lifecycle
  installs, removes and activates its ports.
\<close>

definition others :: "('ss, 'rs) stream_sdk \<Rightarrow> user_ref \<Rightarrow> ('ss, 'rs) rt \<Rightarrow> ('ss, 'rs) rt \<Rightarrow> bool" where
  "others sdk target r t \<longleftrightarrow>
     (runtime_step sdk)\<^sup>*\<^sup>* r t \<and> r_streamPorts t target = r_streamPorts r target \<and>
     (r_activeStreams t target = r_activeStreams r target \<or> r_activeStreams t target = None)"

inductive life_step :: "('ss, 'rs) life_env \<Rightarrow> ('ss, 'rs) lc \<Rightarrow> ('ss, 'rs) lc \<Rightarrow> bool" for env where
  own: "life_step env s (streamLoop env ev s)"
| cancelled: "life_step env s (s\<lparr>lc_ctxDone := True\<rparr>)"
| other: "others (le_sdk env) (le_target env) (lc_rt s) r \<Longrightarrow> life_step env s (s\<lparr>lc_rt := r\<rparr>)"

fun own_port :: "life_pc \<Rightarrow> nat option" where
  "own_port (LOpenSend preferred at) = Some (at_pid at)"
| "own_port (LOpenWait preferred at) = Some (at_pid at)"
| "own_port (LRun pid) = Some pid"
| "own_port (LRecResolve pid) = Some pid"
| "own_port (LResumeSend epoch frames at) = Some (at_pid at)"
| "own_port (LResumeWait epoch frames at) = Some (at_pid at)"
| "own_port (LReplay epoch frames at) = Some (at_pid at)"
| "own_port _ = None"

fun is_running :: "life_pc \<Rightarrow> bool" where
  "is_running (LRun pid) = True"
| "is_running _ = False"

text \<open>The peer's entry in \<open>streamPorts\<close> is the port of the lifecycle, and its entry in \<open>activeStreams\<close>
  is empty unless the lifecycle is in its main select, and then that port; \<open>d\<close> says whether this
  end dials.\<close>

definition tables_ok :: "bool \<Rightarrow> ('ss, 'rs) life_env \<Rightarrow> ('ss, 'rs) lc \<Rightarrow> bool" where
  "tables_ok d env s \<longleftrightarrow>
     r_streamPorts (lc_rt s) (le_target env) = own_port (lc_pc s) \<and>
     (r_activeStreams (lc_rt s) (le_target env) = None \<or>
        is_running (lc_pc s) \<and> r_activeStreams (lc_rt s) (le_target env) = own_port (lc_pc s) \<and> lc_active s) \<and>
     (lc_active s \<longrightarrow> is_running (lc_pc s)) \<and>
     lc_fallback s = (d \<and> lc_pc s \<noteq> LReturned)"

definition life_inv :: "bool \<Rightarrow> ('ss, 'rs) life_env \<Rightarrow> ('ss, 'rs) lc \<Rightarrow> bool" where
  "life_inv d env s \<longleftrightarrow> runtime_inv (lc_rt s) \<and> tables_ok d env s"

text \<open>What holds inside \<open>runStream\<close> while the port is not the peer's outlet.\<close>

definition holds_port :: "bool \<Rightarrow> ('ss, 'rs) life_env \<Rightarrow> nat \<Rightarrow> ('ss, 'rs) lc \<Rightarrow> bool" where
  "holds_port d env pid s \<longleftrightarrow>
     r_streamPorts (lc_rt s) (le_target env) = Some pid \<and> r_sports (lc_rt s) pid \<noteq> None \<and>
     r_activeStreams (lc_rt s) (le_target env) = None \<and> \<not> lc_active s \<and> lc_fallback s = d"

text \<open>Some steps of the runtime that leave the entries of other peers alone.\<close>

definition moves :: "('ss, 'rs) life_env \<Rightarrow> ('ss, 'rs) rt \<Rightarrow> ('ss, 'rs) rt \<Rightarrow> bool" where
  "moves env r t \<longleftrightarrow> (runtime_step (le_sdk env))\<^sup>*\<^sup>* r t \<and>
     (\<forall>u. u \<noteq> le_target env \<longrightarrow> r_streamPorts t u = r_streamPorts r u \<and> r_activeStreams t u = r_activeStreams r u)"

lemma moves_refl [simp, intro]: "moves env r r"
  by (simp add: moves_def)

lemma moves_trans [trans]: "moves env r t \<Longrightarrow> moves env t u \<Longrightarrow> moves env r u"
  by (auto simp: moves_def)

lemma moves_step:
  assumes "runtime_step (le_sdk env) r t"
    "\<And>u. u \<noteq> le_target env \<Longrightarrow> r_streamPorts t u = r_streamPorts r u \<and> r_activeStreams t u = r_activeStreams r u"
  shows "moves env r t"
  using assms by (auto simp: moves_def)

lemma moves_removePort: "moves env r (removePort (le_target env) pid active r)"
  by (rule moves_step [OF runtime_step.remove]) (simp add: removePort_def deactivateStream_def Let_def)

lemma moves_forget: "moves env r (forgetPreferred u c r)"
  by (rule moves_step [OF runtime_step.forget]) (simp add: forgetPreferred_def)

lemma moves_send: "moves env r (sendStreamFrame u c fr r)"
  by (rule moves_step [OF runtime_step.send]) (simp add: sendStreamFrame_def)

lemma moves_activate: "r_sports r pid \<noteq> None \<Longrightarrow> moves env r (activateStream (le_target env) pid r)"
  by (rule moves_step [OF runtime_step.activate]) (simp_all add: activateStream_def)

lemma moves_deactivate: "moves env r (deactivateStream (le_target env) pid r)"
  by (rule moves_step [OF runtime_step.deactivate]) (simp add: deactivateStream_def)

lemma moves_install:
  assumes "installPort (le_sdk env) (le_target env) sid r = (t, pid)"
  shows "moves env r t"
proof (rule moves_step)
  show "runtime_step (le_sdk env) r t"
    using runtime_step.install [of "le_sdk env" r "le_target env" sid] assms by simp
qed (use assms in \<open>auto simp: installPort_def Let_def split: option.splits\<close>)

lemma on_sport_cong: "(\<And>p. r_sports r pid = Some p \<Longrightarrow> f p = g p) \<Longrightarrow> on_sport pid f r = on_sport pid g r"
  by (cases "r_sports r pid") (simp_all add: on_sport_def)

lemma moves_port:
  assumes "\<And>p. r_sports r pid = Some p \<Longrightarrow> f p = port_do (sdk_sender (le_sdk env)) ev p"
  shows "moves env r (on_sport pid f r)"
proof (rule moves_step)
  show "runtime_step (le_sdk env) r (on_sport pid f r)"
    using runtime_step.port [of "le_sdk env" r pid ev] on_sport_cong [of r pid f, OF assms] by simp
qed simp

text \<open>A piece of code from \<open>s\<close> on: it makes such steps and keeps the tables right.\<close>

definition reaches :: "bool \<Rightarrow> ('ss, 'rs) life_env \<Rightarrow> ('ss, 'rs) lc \<Rightarrow> ('ss, 'rs) lc \<Rightarrow> bool" where
  "reaches d env s t \<longleftrightarrow> moves env (lc_rt s) (lc_rt t) \<and> tables_ok d env t"

lemma on_sport_sports [simp]: "r_sports (on_sport pid f r) x = (if x = pid then map_option f (r_sports r pid) else r_sports r x)"
  by (simp add: on_sport_def)

lemma removePort_tables:
  "r_streamPorts (removePort u pid active r) u = (if r_streamPorts r u = Some pid then None else r_streamPorts r u)"
  "r_activeStreams (removePort u pid active r) u =
     (if active \<and> r_activeStreams r u = Some pid then None else r_activeStreams r u)"
  by (auto simp: removePort_def deactivateStream_def on_sport_def Let_def)

lemma finish_reaches:
  assumes "r_streamPorts (lc_rt s) (le_target env) = Some pid" "lc_fallback s = d"
    "r_activeStreams (lc_rt s) (le_target env) = None \<or>
     r_activeStreams (lc_rt s) (le_target env) = Some pid \<and> lc_active s"
  shows "reaches d env s (lc_finish env pid result s)"
proof -
  have "moves env (lc_rt s) (removePort (le_target env) pid (lc_active s) (lc_rt s))"
    by (rule moves_removePort)
  with assms show ?thesis
    by (cases result) (auto simp: reaches_def lc_finish_def lc_switch_def lc_return_def tables_ok_def removePort_tables)
qed

lemma holds_finish: "holds_port d env pid s \<Longrightarrow> reaches d env s (lc_finish env pid result s)"
  by (rule finish_reaches) (auto simp: holds_port_def)

lemma reaches_trans:
  assumes "moves env (lc_rt s) (lc_rt s')" "reaches d env s' t"
  shows "reaches d env s t"
  using assms by (auto simp: reaches_def intro: moves_trans)

lemma holds_on_sport [simp]: "holds_port d env pid (s\<lparr>lc_rt := on_sport q f r\<rparr>) = holds_port d env pid (s\<lparr>lc_rt := r\<rparr>)"
  by (auto simp: holds_port_def)

lemma holds_send [simp]: "holds_port d env pid (s\<lparr>lc_rt := sendStreamFrame u c fr r\<rparr>) = holds_port d env pid (s\<lparr>lc_rt := r\<rparr>)"
  by (simp add: holds_port_def sendStreamFrame_def)

lemma lc_rt_same [simp]: "s\<lparr>lc_rt := lc_rt s\<rparr> = (s :: ('ss, 'rs) lc)"
  by simp

lemma open_reaches:
  assumes "holds_port d env pid s"
  shows "reaches d env s (lc_open env preferred pid candidates s)"
proof (cases candidates)
  case Nil
  let ?s = "if \<not> le_isZero env preferred then on_rt (forgetPreferred (le_target env) preferred) s else s"
  have "moves env (lc_rt s) (lc_rt ?s)"
    by (simp add: moves_forget)
  moreover have "holds_port d env pid ?s" using assms by (auto simp: holds_port_def forgetPreferred_def)
  ultimately show ?thesis unfolding Nil lc_open.simps Let_def by (rule reaches_trans [OF _ holds_finish])
next
  case (Cons candidate rest)
  let ?s = "on_rt (on_sport pid (\<lambda>p. fst (beginOpen candidate p))) s"
  let ?t = "on_rt (sendStreamFrame (le_target env) candidate (stream_open env pid ?s)) ?s"
  have "moves env (lc_rt s) (lc_rt ?s)"
    by simp (rule moves_port [of _ _ _ _ "EvBeginOpen candidate"], simp)
  moreover have "moves env (lc_rt ?s) (lc_rt ?t)" by (simp add: moves_send)
  ultimately have "moves env (lc_rt s) (lc_rt ?t)" by (rule moves_trans)
  moreover have "holds_port d env pid ?t" using assms by simp
  ultimately show ?thesis
    unfolding Cons lc_open.simps Let_def split_beta
    by (auto simp: reaches_def tables_ok_def holds_port_def)
qed

lemma activate_reaches:
  assumes "holds_port d env pid s"
  shows "reaches d env s (lc_activate env pid s)"
proof -
  have "moves env (lc_rt s) (activateStream (le_target env) pid (lc_rt s))"
    using assms by (intro moves_activate) (simp add: holds_port_def)
  with assms show ?thesis
    by (auto simp: reaches_def lc_activate_def tables_ok_def holds_port_def activateStream_def)
qed

lemma rebuild_reaches: "holds_port d env pid s \<Longrightarrow> reaches d env s (lc_rebuild env pid s)"
  unfolding lc_rebuild_def by (rule holds_finish)

lemma resume_reaches:
  assumes h: "holds_port d env pid s"
  shows "reaches d env s (lc_resume env pid sessions s)"
proof (cases sessions)
  case Nil
  with h show ?thesis by (simp add: rebuild_reaches)
next
  case (Cons session rest)
  show ?thesis
  proof (cases "port_ctx_done pid s")
    case True
    with Cons h show ?thesis by (simp add: rebuild_reaches)
  next
    case False
    let ?epoch = "nextEpoch (lc_port s pid)"
    obtain p0 lastAck resumeReady errs where b: "beginResume session ?epoch (lc_port s pid) = (p0, lastAck, resumeReady, errs)"
      by (metis prod_cases4)
    let ?s = "on_rt (on_sport pid (\<lambda>p. fst (beginResume session ?epoch p))) s"
    obtain frames err sender where
      f: "sender_Resume (sdk_sender (le_sdk env)) (sp_sender (lc_port ?s pid)) ?epoch lastAck = ((frames, err), sender)"
      by (metis prod.collapse)
    let ?t = "on_rt (on_sport pid (\<lambda>p. p\<lparr>sp_sender := sender\<rparr>)) ?s"
    let ?u = "on_rt (sendStreamFrame (le_target env) session (stream_resume pid ?epoch lastAck ?t)) ?t"
    have 1: "moves env (lc_rt s) (lc_rt ?s)"
      by simp (rule moves_port [of _ _ _ _ "EvBeginResume session"], simp)
    have 2: "moves env (lc_rt ?s) (lc_rt ?t)"
      by simp (rule moves_port [of _ _ _ _ "EvSenderResume ?epoch lastAck"], use f in \<open>auto simp: \<close>)
    have 3: "moves env (lc_rt ?t) (lc_rt ?u)" by (simp add: moves_send)
    from 1 2 have "moves env (lc_rt s) (lc_rt ?t)" by (rule moves_trans)
    from this 3 have "moves env (lc_rt s) (lc_rt ?u)" by (rule moves_trans)
    moreover have "holds_port d env pid ?t" "holds_port d env pid ?u" using h by simp_all
    moreover have "lc_resume env pid sessions s =
        (if err \<noteq> None then lc_rebuild env pid ?t
         else go (LResumeSend ?epoch frames \<lparr>at_pid = pid, at_session = session, at_rest = rest, at_ready = resumeReady, at_errs = errs\<rparr>) ?u)"
      using False unfolding Cons lc_resume.simps Let_def b prod.case f by simp
    ultimately show ?thesis
      using reaches_trans [OF \<open>moves env (lc_rt s) (lc_rt ?t)\<close> rebuild_reaches]
      by (auto simp: reaches_def tables_ok_def holds_port_def)
  qed
qed

lemma take_err_reaches:
  assumes "holds_port d env (at_pid at) s"
  shows "moves env (lc_rt s) (lc_rt (take_err at s))" "holds_port d env (at_pid at) (take_err at s)"
proof -
  show "moves env (lc_rt s) (lc_rt (take_err at s))"
    by (simp add: take_err_def) (rule moves_port [of _ _ _ _ "EvTakeErr (at_errs at)"], simp)
qed (use assms in \<open>simp add: take_err_def\<close>)

lemma take_token_reaches:
  assumes "holds_port d env (at_pid at) s"
  shows "moves env (lc_rt s) (lc_rt (take_token at s))" "holds_port d env (at_pid at) (take_token at s)"
proof -
  show "moves env (lc_rt s) (lc_rt (take_token at s))"
    by (simp add: take_token_def) (rule moves_port [of _ _ _ _ "EvTakeResumeReady (at_ready at)"], simp)
qed (use assms in \<open>simp add: take_token_def\<close>)

lemma replay_reaches:
  assumes h: "holds_port d env (at_pid at) s"
  shows "reaches d env s (lc_replay env epoch at frames s)"
proof (cases frames)
  case Nil
  let ?s = "on_rt (on_sport (at_pid at) (\<lambda>p. fst (completeResume (at_session at) epoch p))) s"
  have "moves env (lc_rt s) (lc_rt ?s)"
    by simp (rule moves_port [of _ _ _ _ "EvCompleteResume (at_session at) epoch"], simp)
  moreover have "holds_port d env (at_pid at) ?s" using h by simp
  ultimately have "reaches d env s (lc_activate env (at_pid at) ?s)" "reaches d env s (lc_resume env (at_pid at) (at_rest at) ?s)"
    by (rule reaches_trans [OF _ activate_reaches], rule reaches_trans [OF _ resume_reaches])
  then show ?thesis unfolding Nil lc_replay.simps Let_def split_beta by (simp only: if_split) simp
next
  case (Cons frame rest)
  have "moves env (lc_rt s) (sendStreamFrame (le_target env) (at_session at) frame (lc_rt s))"
    by (rule moves_send)
  with h show ?thesis
    by (auto simp: Cons reaches_def tables_ok_def holds_port_def sendStreamFrame_def)
qed

lemma lost_reaches:
  assumes "r_streamPorts (lc_rt s) (le_target env) = Some pid" "r_sports (lc_rt s) pid \<noteq> None" "lc_fallback s = d"
    "r_activeStreams (lc_rt s) (le_target env) = None \<or>
     r_activeStreams (lc_rt s) (le_target env) = Some pid \<and> lc_active s"
  shows "reaches d env s (lc_lost env pid s)"
proof -
  let ?s = "on_rt (on_sport pid (\<lambda>p. p\<lparr>sp_lost := False\<rparr>)) s"
  let ?t = "if lc_active ?s then (on_rt (deactivateStream (le_target env) pid) ?s)\<lparr>lc_active := False\<rparr> else ?s"
  have "moves env (lc_rt s) (lc_rt ?s)"
    by simp (rule moves_port [of _ _ _ _ EvTakeLost], simp)
  moreover have "moves env (lc_rt ?s) (lc_rt ?t)"
    using moves_deactivate [of env "lc_rt ?s"] by auto
  ultimately have "moves env (lc_rt s) (lc_rt ?t)" by (rule moves_trans)
  moreover have "holds_port d env pid ?t"
    using assms by (auto simp: holds_port_def deactivateStream_def)
  ultimately show ?thesis
    using reaches_trans [OF _ rebuild_reaches, of env s ?t d pid]
    unfolding lc_lost_def Let_def by (auto simp: reaches_def tables_ok_def holds_port_def)
qed

section \<open>Every step keeps the tables right\<close>

lemma stay_reaches: "tables_ok d env s \<Longrightarrow> reaches d env s s"
  by (simp add: reaches_def)

lemma go_reaches:
  assumes "own_port pc = own_port (lc_pc s)" "\<not> is_running pc" "\<not> is_running (lc_pc s)" "pc \<noteq> LReturned" "lc_pc s \<noteq> LReturned"
    "tables_ok d env s"
  shows "reaches d env s (go pc s)"
  using assms by (auto simp: reaches_def tables_ok_def)

lemma owned_port:
  assumes "life_inv d env s" "own_port (lc_pc s) = Some pid"
  shows "r_streamPorts (lc_rt s) (le_target env) = Some pid" "r_sports (lc_rt s) pid \<noteq> None"
    "lc_fallback s = d" "r_activeStreams (lc_rt s) (le_target env) = None \<or>
       r_activeStreams (lc_rt s) (le_target env) = Some pid \<and> lc_active s"
proof -
  from assms have t: "tables_ok d env s" and p: "ports_ok (lc_rt s)" by (auto simp: life_inv_def runtime_inv_def)
  with assms(2) show s: "r_streamPorts (lc_rt s) (le_target env) = Some pid" by (simp add: tables_ok_def)
  with p show "r_sports (lc_rt s) pid \<noteq> None" unfolding ports_ok_def by blast
  from t assms(2) show "r_activeStreams (lc_rt s) (le_target env) = None \<or>
      r_activeStreams (lc_rt s) (le_target env) = Some pid \<and> lc_active s" by (auto simp: tables_ok_def)
  from t assms(2) show "lc_fallback s = d" by (cases "lc_pc s") (auto simp: tables_ok_def)
qed

lemma owned_holds:
  assumes "life_inv d env s" "own_port (lc_pc s) = Some pid" "\<not> is_running (lc_pc s)"
  shows "holds_port d env pid s"
  using owned_port [OF assms(1,2)] assms(1,3) by (auto simp: holds_port_def life_inv_def tables_ok_def)

lemma switch_reaches:
  assumes "tables_ok d env s" "own_port (lc_pc s) = None" "lc_pc s \<noteq> LReturned"
  shows "reaches d env s (lc_switch result s)"
  using assms by (cases "lc_pc s"; cases result) (auto simp: reaches_def lc_switch_def lc_return_def tables_ok_def)

lemma candidates_reaches:
  assumes "tables_ok d env s" "own_port (lc_pc s) = None" "lc_pc s \<noteq> LReturned"
  shows "reaches d env s (lc_candidates preferred candidates s)"
  using switch_reaches [OF assms] go_reaches [of "LNewID preferred candidates" s d env] assms
  by (cases "lc_pc s") (auto simp: lc_candidates_def)

lemma installPort_tables:
  assumes "installPort sdk u sid r = (t, pid)"
  shows "r_streamPorts t u = Some pid" "r_activeStreams t = r_activeStreams r"
    "r_streamPorts r u \<noteq> Some pid \<Longrightarrow> r_sports t pid \<noteq> None" "pid = r_nextPort r"
  using assms by (auto simp: installPort_def Let_def split: option.splits)

lemma new_id_reaches:
  assumes inv: "life_inv d env s" and pc: "lc_pc s = LNewID preferred candidates"
  shows "reaches d env s (at_new_id env preferred candidates ev s)"
proof (cases "\<exists>sid. ev = EvNewID (Some sid)")
  case True
  then obtain sid where ev: "ev = EvNewID (Some sid)" by blast
  obtain r pid where i: "installPort (le_sdk env) (le_target env) sid (lc_rt s) = (r, pid)" by fastforce
  have t: "tables_ok d env s" using inv by (simp add: life_inv_def)
  with pc have none: "r_streamPorts (lc_rt s) (le_target env) = None" "\<not> lc_active s"
    "r_activeStreams (lc_rt s) (le_target env) = None" "lc_fallback s = d" by (auto simp: tables_ok_def)
  have "moves env (lc_rt s) r"
    using moves_install [OF i] .
  moreover have "holds_port d env pid (s\<lparr>lc_rt := r\<rparr>)"
    using installPort_tables [OF i] none by (simp add: holds_port_def)
  ultimately show ?thesis
    using reaches_trans [OF _ open_reaches, of env s "s\<lparr>lc_rt := r\<rparr>"] by (simp add: ev i)
next
  case False
  with inv pc show ?thesis
    by (cases ev) (auto simp: life_inv_def stay_reaches switch_reaches)
qed

lemma open_wait_reaches:
  assumes "life_inv d env s" "lc_pc s = LOpenWait preferred at"
  shows "reaches d env s (at_open_wait env preferred at ev s)"
proof -
  have h: "holds_port d env (at_pid at) s" using assms by (simp add: owned_holds)
  have t: "tables_ok d env s" using assms(1) by (simp add: life_inv_def)
  have e: "reaches d env s (lc_open env preferred (at_pid at) (at_rest at) (take_err at s))"
    by (rule reaches_trans [OF take_err_reaches(1) [OF h] open_reaches [OF take_err_reaches(2) [OF h]]])
  show ?thesis
    by (cases ev) (simp_all add: stay_reaches t e open_reaches h activate_reaches holds_finish)
qed

lemma resume_wait_reaches:
  assumes "life_inv d env s" "lc_pc s = LResumeWait epoch frames at"
  shows "reaches d env s (at_resume_wait env epoch frames at ev s)"
proof -
  have h: "holds_port d env (at_pid at) s" using assms by (simp add: owned_holds)
  have t: "tables_ok d env s" using assms(1) by (simp add: life_inv_def)
  have e: "reaches d env s (lc_resume env (at_pid at) (at_rest at) (take_err at s))"
    by (rule reaches_trans [OF take_err_reaches(1) [OF h] resume_reaches [OF take_err_reaches(2) [OF h]]])
  have k: "reaches d env s (lc_replay env epoch at frames (take_token at s))"
    by (rule reaches_trans [OF take_token_reaches(1) [OF h] replay_reaches [OF take_token_reaches(2) [OF h]]])
  show ?thesis
    by (cases ev) (simp_all add: stay_reaches t e k resume_reaches h rebuild_reaches)
qed

lemma send_points_reach:
  assumes "life_inv d env s"
  shows "lc_pc s = LOpenSend preferred at \<Longrightarrow> reaches d env s (at_open_send env preferred at ev s)"
    "lc_pc s = LResumeSend epoch frames at \<Longrightarrow> reaches d env s (at_resume_send env epoch frames at ev s)"
    "lc_pc s = LReplay epoch frames at \<Longrightarrow> reaches d env s (at_replay env epoch frames at ev s)"
proof -
  have t: "tables_ok d env s" using assms by (simp add: life_inv_def)
  show "reaches d env s (at_open_send env preferred at ev s)" if pc: "lc_pc s = LOpenSend preferred at"
  proof -
    have h: "holds_port d env (at_pid at) s" using assms pc by (simp add: owned_holds)
    have "reaches d env s (at_open_send env preferred at (EvSent e) s)" for e
      by (cases e) (simp_all add: go_reaches pc t open_reaches h)
    with t show ?thesis by (cases ev) (simp_all add: stay_reaches)
  qed
  show "reaches d env s (at_resume_send env epoch frames at ev s)" if pc: "lc_pc s = LResumeSend epoch frames at"
  proof -
    have h: "holds_port d env (at_pid at) s" using assms pc by (simp add: owned_holds)
    have "reaches d env s (at_resume_send env epoch frames at (EvSent e) s)" for e
      by (cases e) (simp_all add: go_reaches pc t resume_reaches h)
    with t show ?thesis by (cases ev) (simp_all add: stay_reaches)
  qed
  show "reaches d env s (at_replay env epoch frames at ev s)" if pc: "lc_pc s = LReplay epoch frames at"
  proof -
    have h: "holds_port d env (at_pid at) s" using assms pc by (simp add: owned_holds)
    have "reaches d env s (at_replay env epoch frames at (EvSent e) s)" for e
      by (cases e) (simp_all add: replay_reaches resume_reaches h)
    with t show ?thesis by (cases ev) (simp_all add: stay_reaches)
  qed
qed

lemma top_reaches:
  assumes "life_inv d env s" "lc_pc s = LTop"
  shows "reaches d env s (at_top env ev s)"
proof (cases ev)
  case EvGo
  have t: "tables_ok d env s" using assms(1) by (simp add: life_inv_def)
  with assms(2) have "tables_ok d env (s\<lparr>lc_active := False\<rparr>)" by (auto simp: tables_ok_def)
  then have "reaches d env (s\<lparr>lc_active := False\<rparr>) (lc_candidates preferred candidates (s\<lparr>lc_active := False\<rparr>))"
    for preferred candidates by (rule candidates_reaches) (simp_all add: assms(2))
  then show ?thesis using t assms(2)
    by (auto simp: EvGo Let_def reaches_def lc_return_def tables_ok_def)
qed (use assms in \<open>simp_all add: stay_reaches life_inv_def\<close>)

lemma rest_reaches:
  assumes "life_inv d env s"
  shows "lc_pc s = LResolve preferred \<Longrightarrow> reaches d env s (at_resolve env preferred ev s)"
    "lc_pc s = LRecResolve pid \<Longrightarrow> reaches d env s (at_rec_resolve env pid ev s)"
    "lc_pc s = LSleep \<Longrightarrow> reaches d env s (at_sleep ev s)"
    "lc_pc s = LRun pid \<Longrightarrow> reaches d env s (at_run env pid ev s)"
proof -
  have t: "tables_ok d env s" using assms by (simp add: life_inv_def)
  show "reaches d env s (at_resolve env preferred ev s)" if pc: "lc_pc s = LResolve preferred"
  proof -
    have "reaches d env s (at_resolve env preferred (EvResolved e) s)" for e
      by (cases e) (simp_all add: switch_reaches candidates_reaches pc t)
    with t show ?thesis by (cases ev) (simp_all add: stay_reaches)
  qed
  show "reaches d env s (at_rec_resolve env pid ev s)" if pc: "lc_pc s = LRecResolve pid"
  proof -
    have h: "holds_port d env pid s" using assms pc by (simp add: owned_holds)
    have "reaches d env s (at_rec_resolve env pid (EvResolved e) s)" for e
      by (cases e) (simp_all add: rebuild_reaches resume_reaches h)
    with t show ?thesis by (cases ev) (simp_all add: stay_reaches)
  qed
  show "reaches d env s (at_sleep ev s)" if pc: "lc_pc s = LSleep"
    using t pc by (cases ev) (auto simp: stay_reaches reaches_def tables_ok_def lc_return_def)
  show "reaches d env s (at_run env pid ev s)" if pc: "lc_pc s = LRun pid"
  proof -
    have "own_port (lc_pc s) = Some pid" using pc by simp
    note o = owned_port [OF assms this]
    show ?thesis
      by (cases ev) (simp_all add: stay_reaches t finish_reaches o lost_reaches)
  qed
qed

lemma streamLoop_reaches:
  assumes "life_inv d env s"
  shows "reaches d env s (streamLoop env ev s)"
proof -
  have t: "tables_ok d env s" using assms by (simp add: life_inv_def)
  show ?thesis
    using assms
    by (cases "lc_pc s")
       (simp_all add: streamLoop_def top_reaches new_id_reaches open_wait_reaches resume_wait_reaches
          send_points_reach rest_reaches stay_reaches t)
qed

lemma life_step_inv:
  assumes "life_inv d env s" "life_step env s t"
  shows "life_inv d env t"
  using assms(2)
proof cases
  case (own ev)
  from streamLoop_reaches [OF assms(1), of ev] assms(1) own show ?thesis
    by (auto simp: reaches_def moves_def life_inv_def intro: runtime.steps_inv)
next
  case cancelled
  with assms(1) show ?thesis by (simp add: life_inv_def tables_ok_def)
next
  case (other r)
  with assms(1) show ?thesis
    by (auto simp: life_inv_def tables_ok_def others_def intro: runtime.steps_inv)
qed

lemma life_step_sim:
  assumes "life_inv d env s" "life_step env s t"
  shows "(runtime_step (le_sdk env))\<^sup>*\<^sup>* (lc_rt s) (lc_rt t)"
  using assms(2)
proof cases
  case (own ev)
  with streamLoop_reaches [OF assms(1)] show ?thesis by (simp add: reaches_def moves_def)
qed (auto simp: others_def)

interpretation life: simulation "life_step env" "life_inv d env" "runtime_step (le_sdk env)" lc_rt for d env
  by unfold_locales (auto intro: life_step_inv life_step_sim)

text \<open>The handlers and the TUN loop are such other goroutines.\<close>

lemma fold_frame:
  assumes "\<And>x r. g (f x r) = g r"
  shows "g (fold f xs r) = g r"
  by (induction xs arbitrary: r) (simp_all add: assms)

lemma deactivateINR_tables:
  "r_streamPorts (deactivateStreamIfNotReady u pid r) = r_streamPorts r"
  "r_activeStreams (deactivateStreamIfNotReady u pid r) x = r_activeStreams r x \<or>
   r_activeStreams (deactivateStreamIfNotReady u pid r) x = None"
  by (auto simp: deactivateStreamIfNotReady_def)


lemma tables_fold:
  assumes "\<And>x r. r_streamPorts (f x r) = r_streamPorts r"
    "\<And>x r. r_activeStreams (f x r) u = r_activeStreams r u \<or> r_activeStreams (f x r) u = None"
  shows "r_streamPorts (fold f xs r) = r_streamPorts r \<and>
    (r_activeStreams (fold f xs r) u = r_activeStreams r u \<or> r_activeStreams (fold f xs r) u = None)"
proof (induction xs arbitrary: r)
  case (Cons x xs)
  from Cons [of "f x r"] assms(1) [of x r] assms(2) [of x r] show ?case by auto
qed simp

lemma writePayload_tables: "r_streamPorts (writePayload w r) = r_streamPorts r" "r_activeStreams (writePayload w r) = r_activeStreams r"
  by (simp_all add: writePayload_def Let_def split_beta fold_frame [where g = r_streamPorts]
      fold_frame [where g = r_activeStreams] WritePacket_def)

lemma OnStream_tables:
  "r_streamPorts (OnStream sdk packet frame r) = r_streamPorts r \<and>
   (r_activeStreams (OnStream sdk packet frame r) u = r_activeStreams r u \<or>
    r_activeStreams (OnStream sdk packet frame r) u = None)"
proof (cases "fr_Kind frame")
  case KResume
  then show ?thesis
    by (simp add: OnStream_def OnResume_def Let_def split_beta deactivateINR_tables split: option.splits)
       (auto simp: deactivateStreamIfNotReady_def)
qed (auto simp: OnStream_def OnOpen_def OnOpenAck_def OnData_def OnAck_def OnClose_def Let_def split_beta
      writePayload_tables split: option.splits)

lemma OnStreamSendResult_tables:
  "r_streamPorts (OnStreamSendResult result r) = r_streamPorts r \<and>
   (r_activeStreams (OnStreamSendResult result r) u = r_activeStreams r u \<or>
    r_activeStreams (OnStreamSendResult result r) u = None)"
  by (auto simp: OnStreamSendResult_def Let_def deactivateStreamIfNotReady_def split: option.splits)

lemma OnDisconnect_tables:
  "r_streamPorts (OnDisconnect err items r) = r_streamPorts r \<and>
   (r_activeStreams (OnDisconnect err items r) u = r_activeStreams r u \<or>
    r_activeStreams (OnDisconnect err items r) u = None)"
  unfolding OnDisconnect_def markAllStreamPathsLost_def
  by (rule tables_fold) (auto simp: deactivateStreamIfNotReady_def split: if_splits)

lemma readTUNPacket_tables:
  "r_streamPorts (readTUNPacket data r) = r_streamPorts r \<and> r_activeStreams (readTUNPacket data r) = r_activeStreams r"
  by (auto simp: readTUNPacket_def Let_def split: option.splits)

lemma others_step:
  assumes "runtime_step sdk r t" "r_streamPorts t = r_streamPorts r \<and>
    (r_activeStreams t u = r_activeStreams r u \<or> r_activeStreams t u = None)"
  shows "others sdk u r t"
  using assms by (auto simp: others_def)

lemma handlers_are_others:
  "others sdk u r (OnStream sdk packet frame r)"
  "others sdk u r (OnStreamSendResult result r)"
  "set items = {(x, pid). r_streamPorts r x = Some pid} \<Longrightarrow> others sdk u r (OnDisconnect err items r)"
  "others sdk u r (readTUNPacket data r)"
  "others sdk u r (on_sport pid (port_do (sdk_sender sdk) ev) r)"
  "others sdk u r (on_recv rid ackLoop r)"
proof -
  show "others sdk u r (OnStream sdk packet frame r)"
    by (rule others_step [OF runtime_step.stream OnStream_tables])
  show "others sdk u r (OnStreamSendResult result r)"
    by (rule others_step [OF runtime_step.send_result OnStreamSendResult_tables])
  show "others sdk u r (readTUNPacket data r)"
    by (rule others_step [OF runtime_step.tun]) (simp add: readTUNPacket_tables)
  show "others sdk u r (on_sport pid (port_do (sdk_sender sdk) ev) r)"
    by (rule others_step [OF runtime_step.port]) simp
  show "others sdk u r (on_recv rid ackLoop r)" by (rule others_step [OF runtime_step.ack_turn]) simp
  assume "set items = {(x, pid). r_streamPorts r x = Some pid}"
  then show "others sdk u r (OnDisconnect err items r)"
    by (rule others_step [OF runtime_step.disconnect OnDisconnect_tables])
qed

text \<open>So are the lifecycles of other peers.\<close>

lemma lifecycle_is_other:
  assumes "life_inv d env s" "u \<noteq> le_target env"
  shows "others (le_sdk env) u (lc_rt s) (lc_rt (streamLoop env ev s))"
  using streamLoop_reaches [OF assms(1), of ev] assms(2) by (simp add: reaches_def moves_def others_def)

lemma life_start_inv:
  "life_inv (shouldDial u (le_target env) (peer_DialPolicy (le_peer env))) env (startStreamLoop env (newRuntime cfg routes u))"
proof -
  have "runtime_inv (newRuntime cfg routes u)" by (rule runtime.start_inv) blast
  then show ?thesis by (simp add: life_inv_def tables_ok_def startStreamLoop_def) (simp add: newRuntime_def)
qed

text \<open>C6. Whatever the other goroutines do, a peer's packets are offered to a stream only while the peer's
  lifecycle is in its main select with that very stream, and when it has no stream, or has
  returned, no entry for the peer is left behind; the relay connection beside it is dialled from
  the start until it returns, exactly where this end of the pair dials. Every step of the lifecycle
  is some steps of the runtime, so what holds for those holds for it.\<close>

theorem lifecycle_owns_outlet:
  assumes "(life_step env)\<^sup>*\<^sup>* (startStreamLoop env (newRuntime cfg routes u)) s"
  shows "(runtime_step (le_sdk env))\<^sup>*\<^sup>* (newRuntime cfg routes u) (lc_rt s) \<and>
    r_streamPorts (lc_rt s) (le_target env) = own_port (lc_pc s) \<and>
    (\<forall>pid. r_activeStreams (lc_rt s) (le_target env) = Some pid \<longrightarrow>
       lc_pc s = LRun pid \<and> (\<exists>p. r_sports (lc_rt s) pid = Some p \<and> \<not> sp_panicked p)) \<and>
    lc_fallback s = (shouldDial u (le_target env) (peer_DialPolicy (le_peer env)) \<and> lc_pc s \<noteq> LReturned)"
proof -
  let ?d = "shouldDial u (le_target env) (peer_DialPolicy (le_peer env))"
  have inv: "life_inv ?d env s" by (rule life.run_inv [OF assms life_start_inv])
  have sim: "(runtime_step (le_sdk env))\<^sup>*\<^sup>* (newRuntime cfg routes u) (lc_rt s)"
    using life.run_sim [OF assms life_start_inv] by (simp add: startStreamLoop_def)
  have t: "tables_ok ?d env s" and p: "ports_ok (lc_rt s)"
    using inv by (auto simp: life_inv_def runtime_inv_def)
  have "lc_pc s = LRun pid \<and> (\<exists>p. r_sports (lc_rt s) pid = Some p \<and> \<not> sp_panicked p)"
    if "r_activeStreams (lc_rt s) (le_target env) = Some pid" for pid
  proof -
    from t that have "is_running (lc_pc s)" "own_port (lc_pc s) = Some pid" by (auto simp: tables_ok_def)
    then have "lc_pc s = LRun pid" by (cases "lc_pc s") auto
    moreover have "\<exists>p. r_sports (lc_rt s) pid = Some p \<and> \<not> sp_panicked p"
      using p that by (fastforce simp: ports_ok_def port_inv_def)
    ultimately show ?thesis by blast
  qed
  with sim t show ?thesis by (simp add: tables_ok_def)
qed

section \<open>The candidates\<close>

abbreviation usable_session :: "(session_ref \<Rightarrow> bool) \<Rightarrow> resolved_session \<Rightarrow> bool" where
  "usable_session isZero c \<equiv> rs_TransientCapable c \<and> \<not> isZero (rs_Session c)"

lemma transient_loop_eq:
  "transient_loop isZero seen cs =
   filter (\<lambda>c. c \<notin> seen) (rev (remdups (rev (map rs_Session (filter (usable_session isZero) cs)))))"
proof (induction cs arbitrary: seen)
  case (Cons c cs)
  have step: "rev (remdups (rev xs @ [x])) = x # filter (\<lambda>y. y \<noteq> x) (rev (remdups (rev xs)))" for x :: session_ref and xs
    by (induction xs rule: rev_induct) (auto simp: filter_empty_conv)
  show ?case using Cons by (auto simp: step conj_commute intro: filter_cong)
qed simp

text \<open>C39. The candidates of an Open or a Resume are the sessions the resolver reports as able to receive
  transient traffic and that are not the zero session, in the resolver's order, each once, where it
  comes first.\<close>

theorem candidates_first_occurrences:
  "transientStreamSessions isZero sessions =
     rev (remdups (rev (map rs_Session (filter (usable_session isZero) sessions)))) \<and>
   distinct (transientStreamSessions isZero sessions)"
  by (simp add: transientStreamSessions_def transient_loop_eq)

section \<open>A recovery that fails\<close>

text \<open>The Resume frames sent to the candidates, each under the next epoch.\<close>

fun resumes :: "user_ref \<Rightarrow> stream_id \<Rightarrow> u64 \<Rightarrow> u64 \<Rightarrow> session_ref list \<Rightarrow> (user_ref \<times> session_ref \<times> stream_frame) list" where
  "resumes target sid ack epoch [] = []"
| "resumes target sid ack epoch (c # cs) =
     (target, c, zero_frame\<lparr>fr_Kind := KResume, fr_ID := sid, fr_Epoch := epoch, fr_Offset := ack\<rparr>) #
     resumes target sid ack (epoch + 1) cs"

text \<open>How an attempt can fail without an answer: the send is refused, or nothing comes in time.\<close>

fun unanswered :: "stream_error option \<Rightarrow> life_event list" where
  "unanswered (Some err) = [EvSent (Some err)]"
| "unanswered None = [EvSent None, EvTimeout]"

lemma beginResume_eq:
  "beginResume session epoch p = (q, ack, c, e) \<Longrightarrow>
   ack = sp_lastAck p \<and> sp_epoch q = epoch \<and> sp_lastAck q = sp_lastAck p \<and> sp_id q = sp_id p \<and>
   sp_cancelled q = sp_cancelled p \<and> sp_sender q = sp_sender p"
  by (auto simp: beginResume_def remake_ready_def remake_resumeReady_def remake_attemptErr_def Let_def split: if_splits)

text \<open>One turn of the loop of \<open>recoverStream\<close>.\<close>

lemma lc_resume_Cons:
  assumes p: "r_sports (lc_rt s) pid = Some p" "\<not> sp_cancelled p" "\<not> lc_ctxDone s"
    and b: "beginResume c (nextEpoch p) p = (q, ack, ready, errs)"
    and f: "sender_Resume (sdk_sender (le_sdk env)) (sp_sender p) (nextEpoch p) (sp_lastAck p) = ((frames, None), sender)"
  shows "lc_resume env pid (c # cs) s =
    go (LResumeSend (nextEpoch p) frames \<lparr>at_pid = pid, at_session = c, at_rest = cs, at_ready = ready, at_errs = errs\<rparr>)
      (s\<lparr>lc_rt := sendStreamFrame (le_target env) c
           (zero_frame\<lparr>fr_Kind := KResume, fr_ID := sp_id p, fr_Epoch := nextEpoch p, fr_Offset := sp_lastAck p\<rparr>)
           ((lc_rt s)\<lparr>r_sports := (r_sports (lc_rt s))(pid \<mapsto> q\<lparr>sp_sender := sender\<rparr>)\<rparr>)\<rparr>)"
proof -
  note q = beginResume_eq [OF b]
  have heap: "on_sport pid (\<lambda>p. p\<lparr>sp_sender := sender\<rparr>) (on_sport pid (\<lambda>p. fst (beginResume c (nextEpoch (the (r_sports (lc_rt s) pid))) p)) (lc_rt s)) =
      (lc_rt s)\<lparr>r_sports := (r_sports (lc_rt s))(pid \<mapsto> q\<lparr>sp_sender := sender\<rparr>)\<rparr>"
    using p(1) b by (simp add: on_sport_def)
  have "lc_port (on_rt (on_sport pid (\<lambda>p. fst (beginResume c (nextEpoch (the (r_sports (lc_rt s) pid))) p))) s) pid = q"
    using p(1) b by simp
  moreover have "sender_Resume (sdk_sender (le_sdk env)) (sp_sender q) (nextEpoch p) ack = ((frames, None), sender)"
    using f q by simp
  moreover have "\<not> port_ctx_done pid s" using p by (simp add: port_ctx_done_def)
  ultimately show ?thesis
    unfolding lc_resume.simps Let_def using p(1) b q heap by (simp add: stream_resume_def)
qed

text \<open>The candidates that get their Resume: those in front of the first one for which the sender refuses to
  begin the next epoch.\<close>

fun accepted_resumes :: "'ss sender_sdk \<Rightarrow> 'ss \<Rightarrow> u64 \<Rightarrow> u64 \<Rightarrow> session_ref list \<Rightarrow> session_ref list" where
  "accepted_resumes sdk ss epoch ack [] = []"
| "accepted_resumes sdk ss epoch ack (c # cs) =
     (case sender_Resume sdk ss epoch ack of
        ((frames, None), ss') \<Rightarrow> c # accepted_resumes sdk ss' (epoch + 1) ack cs
      | _ \<Rightarrow> [])"

lemma lc_resume_refused:
  assumes "r_sports (lc_rt s) pid = Some p" "\<not> lc_ctxDone s"
    and "snd (fst (sender_Resume (sdk_sender (le_sdk env)) (sp_sender p) (nextEpoch p) (sp_lastAck p))) \<noteq> None"
  shows "\<exists>t q. lc_resume env pid (c # cs) s = lc_rebuild env pid t \<and> r_sent (lc_rt t) = r_sent (lc_rt s) \<and>
    \<not> lc_ctxDone t \<and> r_sports (lc_rt t) pid = Some q \<and> lc_active t = lc_active s"
proof (cases "port_ctx_done pid s")
  case True
  with assms show ?thesis by (intro exI [of _ s] exI [of _ p]) simp
next
  case False
  obtain q ack ready errs where b: "beginResume c (nextEpoch p) p = (q, ack, ready, errs)" by (metis prod_cases4)
  obtain frames err sender where f: "sender_Resume (sdk_sender (le_sdk env)) (sp_sender p) (nextEpoch p) (sp_lastAck p) = ((frames, Some err), sender)"
    using assms(3) by (metis not_None_eq prod.collapse)
  let ?q = "q\<lparr>sp_sender := sender\<rparr>"
  let ?t = "s\<lparr>lc_rt := (lc_rt s)\<lparr>r_sports := (r_sports (lc_rt s))(pid \<mapsto> ?q)\<rparr>\<rparr>"
  note q = beginResume_eq [OF b]
  have heap: "on_sport pid (\<lambda>p. p\<lparr>sp_sender := sender\<rparr>) (on_sport pid (\<lambda>p. fst (beginResume c (nextEpoch (the (r_sports (lc_rt s) pid))) p)) (lc_rt s)) =
      (lc_rt s)\<lparr>r_sports := (r_sports (lc_rt s))(pid \<mapsto> ?q)\<rparr>"
    using assms(1) b by (simp add: on_sport_def)
  have "sender_Resume (sdk_sender (le_sdk env)) (sp_sender q) (nextEpoch p) ack = ((frames, Some err), sender)"
    using f q by simp
  then have "lc_resume env pid (c # cs) s = lc_rebuild env pid ?t"
    unfolding lc_resume.simps Let_def using assms(1) False b heap by simp
  with assms(2) show ?thesis by (intro exI [of _ ?t] exI [of _ ?q]) simp
qed

lemma resume_unanswered:
  "r_sports (lc_rt s) pid = Some p \<Longrightarrow> \<not> sp_cancelled p \<Longrightarrow> \<not> lc_ctxDone s \<Longrightarrow>
    length answers = length (accepted_resumes (sdk_sender (le_sdk env)) (sp_sender p) (nextEpoch p) (sp_lastAck p) cs) \<Longrightarrow>
    \<exists>t q. fold (streamLoop env) (concat (map unanswered answers)) (lc_resume env pid cs s) = lc_rebuild env pid t \<and>
      r_sent (lc_rt t) = r_sent (lc_rt s) @ resumes (le_target env) (sp_id p) (sp_lastAck p) (nextEpoch p)
        (accepted_resumes (sdk_sender (le_sdk env)) (sp_sender p) (nextEpoch p) (sp_lastAck p) cs) \<and>
      \<not> lc_ctxDone t \<and> r_sports (lc_rt t) pid = Some q \<and> lc_active t = lc_active s"
proof (induction cs arbitrary: s p answers)
  case Nil
  then show ?case by auto
next
  case (Cons c cs)
  show ?case
  proof (cases "snd (fst (sender_Resume (sdk_sender (le_sdk env)) (sp_sender p) (nextEpoch p) (sp_lastAck p)))")
    case (Some err)
    then have none: "accepted_resumes (sdk_sender (le_sdk env)) (sp_sender p) (nextEpoch p) (sp_lastAck p) (c # cs) = []"
      by (auto split: prod.splits option.splits)
    with Cons.prems(4) have "answers = []" by simp
    with lc_resume_refused [OF Cons.prems(1,3)] Some show ?thesis
      unfolding none by (simp del: lc_resume.simps)
  next
    case None
    then obtain frames sender where f: "sender_Resume (sdk_sender (le_sdk env)) (sp_sender p) (nextEpoch p) (sp_lastAck p) = ((frames, None), sender)"
      by (metis prod.collapse)
    let ?rest = "accepted_resumes (sdk_sender (le_sdk env)) sender (nextEpoch p + 1) (sp_lastAck p) cs"
    have acc: "accepted_resumes (sdk_sender (le_sdk env)) (sp_sender p) (nextEpoch p) (sp_lastAck p) (c # cs) = c # ?rest"
      by (simp add: f)
    with Cons.prems(4) obtain o1 fs where answers: "answers = o1 # fs" "length fs = length ?rest" by (cases answers) auto
    obtain q ack ready errs where b: "beginResume c (nextEpoch p) p = (q, ack, ready, errs)" by (metis prod_cases4)
    let ?q = "q\<lparr>sp_sender := sender\<rparr>"
    let ?frame = "zero_frame\<lparr>fr_Kind := KResume, fr_ID := sp_id p, fr_Epoch := nextEpoch p, fr_Offset := sp_lastAck p\<rparr>"
    let ?at = "\<lparr>at_pid = pid, at_session = c, at_rest = cs, at_ready = ready, at_errs = errs\<rparr>"
    let ?r = "sendStreamFrame (le_target env) c ?frame ((lc_rt s)\<lparr>r_sports := (r_sports (lc_rt s))(pid \<mapsto> ?q)\<rparr>)"
    have resume: "lc_resume env pid (c # cs) s = go (LResumeSend (nextEpoch p) frames ?at) (s\<lparr>lc_rt := ?r\<rparr>)"
      by (rule lc_resume_Cons [OF Cons.prems(1-3) b f])
    have "\<exists>pc. fold (streamLoop env) (unanswered o1) (lc_resume env pid (c # cs) s) =
        lc_resume env pid cs (s\<lparr>lc_rt := ?r, lc_pc := pc\<rparr>)"
      by (cases o1) (auto simp: resume streamLoop_def simp del: lc_resume.simps)
    then obtain pc where pc: "fold (streamLoop env) (unanswered o1) (lc_resume env pid (c # cs) s) =
        lc_resume env pid cs (s\<lparr>lc_rt := ?r, lc_pc := pc\<rparr>)" by blast
    have q: "r_sports (lc_rt (s\<lparr>lc_rt := ?r, lc_pc := pc\<rparr>)) pid = Some ?q" "\<not> sp_cancelled ?q"
      "nextEpoch ?q = nextEpoch p + 1" "sp_id ?q = sp_id p" "sp_lastAck ?q = sp_lastAck p" "sp_sender ?q = sender"
      using beginResume_eq [OF b] Cons.prems(2) by (simp_all add: sendStreamFrame_def nextEpoch_def)
    from Cons.IH [OF q(1,2), of fs] answers(2) Cons.prems(3) obtain t q' where
      "fold (streamLoop env) (concat (map unanswered fs)) (lc_resume env pid cs (s\<lparr>lc_rt := ?r, lc_pc := pc\<rparr>)) = lc_rebuild env pid t"
      "r_sent (lc_rt t) = r_sent ?r @ resumes (le_target env) (sp_id p) (sp_lastAck p) (nextEpoch p + 1) ?rest"
      "\<not> lc_ctxDone t" "r_sports (lc_rt t) pid = Some q'" "lc_active t = lc_active s"
      by (auto simp: q)
    then show ?thesis unfolding acc unfolding answers(1) by (auto simp: pc sendStreamFrame_def simp del: lc_resume.simps)
  qed
qed

text \<open>C16. When the path is lost, the stream is resumed before it is replaced: every current session of the
  peer gets exactly one Resume, in order and under the next epoch each, from the offset that was
  acknowledged last, up to the first session for which the SDK's sender refuses to begin the epoch, if
  there is one. When none of them answers in time, or the sender refuses, the lifecycle closes the
  stream, takes it out of the tables and starts over without a pause.\<close>

theorem failed_recovery_rebuilds:
  fixes env :: "('ss, 'rs) life_env" and sessions :: "resolved_session list"
  assumes "lc_pc s = LRecResolve pid" "r_sports (lc_rt s) pid = Some p" "\<not> sp_cancelled p" "\<not> lc_ctxDone s"
  defines "cs \<equiv> accepted_resumes (sdk_sender (le_sdk env)) (sp_sender p) (nextEpoch p) (sp_lastAck p)
     (transientStreamSessions (le_isZero env) sessions)"
  assumes "length answers = length cs"
  shows "let t = fold (streamLoop env) (EvResolved (Inr sessions) # concat (map unanswered answers)) s
    in lc_pc t = LTop \<and> r_streamPorts (lc_rt t) (le_target env) \<noteq> Some pid \<and> sp_once (lc_port t pid) \<and>
       r_sent (lc_rt t) = r_sent (lc_rt s) @ resumes (le_target env) (sp_id p) (sp_lastAck p) (nextEpoch p) cs"
proof -
  from resume_unanswered [OF assms(2-4)] assms(6) obtain t q where t:
    "fold (streamLoop env) (concat (map unanswered answers)) (lc_resume env pid (transientStreamSessions (le_isZero env) sessions) s) =
       lc_rebuild env pid t"
    "r_sent (lc_rt t) = r_sent (lc_rt s) @ resumes (le_target env) (sp_id p) (sp_lastAck p) (nextEpoch p) cs"
    "\<not> lc_ctxDone t" "r_sports (lc_rt t) pid = Some q" unfolding cs_def by blast
  have "r_sent (removePort u pid a r) = r_sent r" for u a and r :: "('ss, 'rs) runtime"
    by (simp add: removePort_def deactivateStream_def on_sport_def Let_def)
  moreover have "sp_once (sport (removePort (le_target env) pid (lc_active t) (lc_rt t)) pid)"
    using t(4) by (simp add: removePort_def deactivateStream_def Let_def sp_close_def)
  ultimately show ?thesis using t assms(1)
    by (simp add: streamLoop_def lc_rebuild_def lc_finish_def lc_switch_def removePort_tables Let_def)
qed

section \<open>A recovery that succeeds\<close>

lemma replay_all:
  "\<exists>pc. fold (streamLoop env) (replicate (length frames) (EvSent None)) (lc_replay env epoch at frames s) =
     lc_replay env epoch at [] (s\<lparr>lc_rt := (lc_rt s)\<lparr>r_sent := r_sent (lc_rt s) @ map (\<lambda>f. (le_target env, at_session at, f)) frames\<rparr>, lc_pc := pc\<rparr>)"
proof (induction frames arbitrary: s)
  case Nil
  have "s\<lparr>lc_rt := (lc_rt s)\<lparr>r_sent := r_sent (lc_rt s) @ []\<rparr>, lc_pc := lc_pc s\<rparr> = s" by simp
  then show ?case by (metis fold_Nil id_apply list.map(1) list.size(3) replicate_0)
next
  case (Cons f frames)
  let ?s = "go (LReplay epoch frames at) (on_rt (sendStreamFrame (le_target env) (at_session at) f) s)"
  from Cons [of ?s] obtain pc where
    "fold (streamLoop env) (replicate (length frames) (EvSent None)) (lc_replay env epoch at frames ?s) =
     lc_replay env epoch at [] (?s\<lparr>lc_rt := (lc_rt ?s)\<lparr>r_sent := r_sent (lc_rt ?s) @ map (\<lambda>f. (le_target env, at_session at, f)) frames\<rparr>, lc_pc := pc\<rparr>)"
    by blast
  moreover have "streamLoop env (EvSent None) (lc_replay env epoch at (f # frames) s) = lc_replay env epoch at frames ?s"
    by (simp add: streamLoop_def)
  then have "fold (streamLoop env) (replicate (length (f # frames)) (EvSent None)) (lc_replay env epoch at (f # frames) s) =
      fold (streamLoop env) (replicate (length frames) (EvSent None)) (lc_replay env epoch at frames ?s)"
    by (simp only: list.size add_Suc_right add_0_right replicate_Suc fold_Cons o_apply)
  moreover have "?s\<lparr>lc_rt := (lc_rt ?s)\<lparr>r_sent := r_sent (lc_rt ?s) @ map (\<lambda>f. (le_target env, at_session at, f)) frames\<rparr>, lc_pc := pc\<rparr> =
      s\<lparr>lc_rt := (lc_rt s)\<lparr>r_sent := r_sent (lc_rt s) @ map (\<lambda>f. (le_target env, at_session at, f)) (f # frames)\<rparr>, lc_pc := pc\<rparr>"
    by (simp add: sendStreamFrame_def)
  ultimately show ?case by (metis (no_types))
qed

text \<open>While the last of the frames has not been sent.\<close>

lemma replay_prefix:
  "n < length frames \<Longrightarrow>
   fold (streamLoop env) (replicate n (EvSent None)) (lc_replay env epoch at frames s) =
     s\<lparr>lc_rt := (lc_rt s)\<lparr>r_sent := r_sent (lc_rt s) @ map (\<lambda>f. (le_target env, at_session at, f)) (take (Suc n) frames)\<rparr>,
       lc_pc := LReplay epoch (drop (Suc n) frames) at\<rparr>"
proof (induction frames arbitrary: n s)
  case (Cons f frames)
  let ?s = "go (LReplay epoch frames at) (on_rt (sendStreamFrame (le_target env) (at_session at) f) s)"
  show ?case
  proof (cases n)
    case (Suc m)
    have "streamLoop env (EvSent None) (lc_replay env epoch at (f # frames) s) = lc_replay env epoch at frames ?s"
      by (simp add: streamLoop_def)
    then have "fold (streamLoop env) (replicate n (EvSent None)) (lc_replay env epoch at (f # frames) s) =
        fold (streamLoop env) (replicate m (EvSent None)) (lc_replay env epoch at frames ?s)"
      by (simp only: Suc replicate_Suc fold_Cons o_apply)
    with Cons.IH [of m ?s] Cons.prems Suc show ?thesis by (simp add: sendStreamFrame_def)
  qed (simp add: sendStreamFrame_def)
qed simp

lemma beginResume_fresh:
  assumes "port_inv p" "beginResume session epoch p = (q, ack, c, e)"
  shows "sp_targetSession q = session" "sp_epoch q = epoch" "\<not> sp_readyState q" "sp_resumeReady q = Some c"
    "sp_attemptErr q = e" "sp_errs q e = []" "sp_tokens q c = 0" "sp_ready q \<notin> sp_closed q" "c \<noteq> e"
proof -
  show "sp_targetSession q = session" "sp_epoch q = epoch" "\<not> sp_readyState q" "sp_resumeReady q = Some c"
    "sp_attemptErr q = e" "c \<noteq> e"
    using assms(2) by (auto simp: beginResume_def remake_ready_def remake_resumeReady_def remake_attemptErr_def Let_def split: if_splits)
  show "sp_errs q e = []" "sp_tokens q c = 0" "sp_ready q \<notin> sp_closed q"
    using assms unfolding port_inv_def
    by (auto simp: beginResume_def remake_ready_def remake_resumeReady_def remake_attemptErr_def Let_def split: if_splits)
qed

lemma acknowledge_resume:
  assumes "sp_targetSession q = session" "sp_epoch q = fr_Epoch frame" "\<not> sp_readyState q" "sp_resumeReady q = Some c" "sp_tokens q c = 0"
    and "fst (sender_Acknowledge sdk (sp_sender q) (fr_Epoch frame) (fr_Offset frame) (fr_Window frame)) = None"
  defines "p \<equiv> acknowledge sdk session frame q"
  shows "sp_targetSession p = session" "sp_epoch p = fr_Epoch frame" "\<not> sp_readyState p" "sp_resumeReady p = None"
    "sp_tokens p c = 1" "sp_attemptErr p = sp_attemptErr q" "sp_errs p = sp_errs q" "sp_ready p = sp_ready q"
    "sp_closed p = sp_closed q" "sp_id p = sp_id q"
  using assms(1-6) unfolding p_def by (auto simp: acknowledge_def wakeWriter_def Let_def split: prod.splits)

lemma completeResume_ok:
  assumes "sp_targetSession p = session" "sp_epoch p = epoch" "\<not> sp_readyState p" "sp_resumeReady p = None"
    "sp_errs p (sp_attemptErr p) = []"
  shows "snd (completeResume session epoch p)" "sp_readyState (fst (completeResume session epoch p))"
    "sp_targetSession (fst (completeResume session epoch p)) = session"
  using assms by (auto simp: completeResume_def close_chan_def)

text \<open>C9. A Resume that the peer acknowledges brings the stream back without a rebuild: the frames that the
  sender still holds go out again to the session that answered, in order and before anything else.
  Only then does the path become ready and the stream the peer's outlet again: it is not ready when
  the Resume has been sent and when it has been acknowledged, and after each send of a frame but the
  last, exactly the frames up to that one have gone out, the path is not ready yet and the active
  streams are what they were.\<close>

theorem acknowledged_resume_replays:
  assumes s: "lc_pc s = LRecResolve pid" "r_sports (lc_rt s) pid = Some p" "\<not> sp_cancelled p" "\<not> lc_ctxDone s" "port_inv p"
    and table: "r_streamPorts (lc_rt s) (le_target env) = Some pid"
    and first: "transientStreamSessions (le_isZero env) sessions = c # rest"
    and resume: "sender_Resume (sdk_sender (le_sdk env)) (sp_sender p) (nextEpoch p) (sp_lastAck p) = ((frames, None), sender)"
    and ack: "fr_Kind ack = KAck" "fr_ID ack = sp_id p" "fr_Epoch ack = nextEpoch p"
    and packet: "pk_Sender packet = le_target env" "pk_TargetSession packet = c"
    and accepted: "fst (sender_Acknowledge (sdk_sender (le_sdk env)) sender (fr_Epoch ack) (fr_Offset ack) (fr_Window ack)) = None"
  defines "sent \<equiv> fold (streamLoop env) [EvResolved (Inr sessions), EvSent None] s"
  defines "answered \<equiv> sent\<lparr>lc_rt := OnStream (le_sdk env) packet ack (lc_rt sent)\<rparr>"
  defines "t \<equiv> \<lambda>n. fold (streamLoop env) (EvReady # replicate n (EvSent None)) answered"
  defines "out \<equiv> \<lambda>n. r_sent (lc_rt s) @ resumes (le_target env) (sp_id p) (sp_lastAck p) (nextEpoch p) [c] @
      map (\<lambda>f. (le_target env, c, f)) (take n frames)"
  shows "\<not> sp_readyState (lc_port sent pid) \<and> r_sent (lc_rt sent) = out 0 \<and>
    \<not> sp_readyState (lc_port answered pid) \<and> r_sent (lc_rt answered) = out 0 \<and>
    (\<forall>n < length frames.
       \<not> is_running (lc_pc (t n)) \<and> lc_active (t n) = lc_active s \<and>
       r_activeStreams (lc_rt (t n)) = r_activeStreams (lc_rt s) \<and>
       \<not> sp_readyState (lc_port (t n) pid) \<and> r_sent (lc_rt (t n)) = out (Suc n)) \<and>
    lc_pc (t (length frames)) = LRun pid \<and>
    r_activeStreams (lc_rt (t (length frames))) (le_target env) = Some pid \<and>
    sp_readyState (lc_port (t (length frames)) pid) \<and> sp_targetSession (lc_port (t (length frames)) pid) = c \<and>
    r_sent (lc_rt (t (length frames))) = out (length frames)"
proof -
  obtain q lastAck ready errs where b: "beginResume c (nextEpoch p) p = (q, lastAck, ready, errs)" by (metis prod_cases4)
  note q = beginResume_fresh [OF s(5) b] beginResume_eq [OF b]
  let ?q = "q\<lparr>sp_sender := sender\<rparr>"
  let ?at = "\<lparr>at_pid = pid, at_session = c, at_rest = rest, at_ready = ready, at_errs = errs\<rparr>"
  let ?frame = "zero_frame\<lparr>fr_Kind := KResume, fr_ID := sp_id p, fr_Epoch := nextEpoch p, fr_Offset := sp_lastAck p\<rparr>"
  let ?r = "sendStreamFrame (le_target env) c ?frame ((lc_rt s)\<lparr>r_sports := (r_sports (lc_rt s))(pid \<mapsto> ?q)\<rparr>)"
  have sent: "sent = s\<lparr>lc_rt := ?r, lc_pc := LResumeWait (nextEpoch p) frames ?at\<rparr>"
    unfolding sent_def using lc_resume_Cons [OF s(2-4) b resume, where cs = rest]
    by (simp add: streamLoop_def s(1) first del: lc_resume.simps)
  define a where "a = acknowledge (sdk_sender (le_sdk env)) c ack ?q"
  have acc: "fst (sender_Acknowledge (sdk_sender (le_sdk env)) (sp_sender ?q) (fr_Epoch ack) (fr_Offset ack) (fr_Window ack)) = None"
    using accepted by simp
  have begun: "sp_targetSession ?q = c" "sp_epoch ?q = fr_Epoch ack" "\<not> sp_readyState ?q" "sp_resumeReady ?q = Some ready" "sp_tokens ?q ready = 0"
    using q ack by simp_all
  note a = acknowledge_resume [OF begun acc, folded a_def]
  have answered: "answered = s\<lparr>lc_rt := ?r\<lparr>r_sports := (r_sports (lc_rt s))(pid \<mapsto> a)\<rparr>, lc_pc := LResumeWait (nextEpoch p) frames ?at\<rparr>"
    using table packet ack q unfolding answered_def sent a_def
    by (simp add: OnStream_def OnAck_def sendStreamFrame_def on_sport_def)
  have ap: "sp_targetSession a = c" "sp_epoch a = nextEpoch p" "\<not> sp_readyState a" "sp_resumeReady a = None" "sp_tokens a ready = 1"
    "sp_errs a (sp_attemptErr a) = []"
    using a q ack by simp_all
  let ?token = "a\<lparr>sp_tokens := (sp_tokens a)(ready := 0)\<rparr>"
  let ?u = "s\<lparr>lc_pc := LResumeWait (nextEpoch p) frames ?at, lc_rt := ?r\<lparr>r_sports := (r_sports (lc_rt s))(pid \<mapsto> ?token)\<rparr>\<rparr>"
  have "streamLoop (env :: ('a, 'b) life_env) EvReady answered = lc_replay env (nextEpoch p) ?at frames ?u"
    using ap(5) unfolding answered by (simp add: streamLoop_def take_token_def on_sport_def sendStreamFrame_def)
  note ready = this
  have early: "t n = ?u\<lparr>lc_rt := (lc_rt ?u)\<lparr>r_sent := r_sent (lc_rt ?u) @ map (\<lambda>f. (le_target env, at_session ?at, f)) (take (Suc n) frames)\<rparr>,
      lc_pc := LReplay (nextEpoch p) (drop (Suc n) frames) ?at\<rparr>" if "n < length frames" for n
    using replay_prefix [OF that, of env "nextEpoch p" ?at ?u] ready unfolding t_def fold_Cons o_apply by metis
  have early': "\<not> is_running (lc_pc (t n)) \<and> lc_active (t n) = lc_active s \<and> r_activeStreams (lc_rt (t n)) = r_activeStreams (lc_rt s) \<and>
      \<not> sp_readyState (lc_port (t n) pid) \<and> r_sent (lc_rt (t n)) = out (Suc n)" if "n < length frames" for n
    unfolding early [OF that] using ap by (simp add: sendStreamFrame_def out_def)
  have before: "\<not> sp_readyState (lc_port sent pid) \<and> r_sent (lc_rt sent) = out 0 \<and>
      \<not> sp_readyState (lc_port answered pid) \<and> r_sent (lc_rt answered) = out 0"
    unfolding answered sent using begun(3) ap(3) by (simp add: sendStreamFrame_def out_def)
  from ready obtain pc where t: "t (length frames) = lc_replay env (nextEpoch p) ?at []
      (?u\<lparr>lc_rt := (lc_rt ?u)\<lparr>r_sent := r_sent (lc_rt ?u) @ map (\<lambda>f. (le_target env, at_session ?at, f)) frames\<rparr>, lc_pc := pc\<rparr>)"
    unfolding t_def fold_Cons o_apply using replay_all [of env frames "nextEpoch p" ?at ?u] by metis
  note complete = completeResume_ok [of ?token c "nextEpoch p"]
  have "lc_pc (t (length frames)) = LRun pid \<and> r_activeStreams (lc_rt (t (length frames))) (le_target env) = Some pid \<and>
    sp_readyState (lc_port (t (length frames)) pid) \<and> sp_targetSession (lc_port (t (length frames)) pid) = c \<and>
    r_sent (lc_rt (t (length frames))) = out (length frames)"
    using complete ap unfolding t
    by (simp add: split_beta Let_def lc_activate_def activateStream_def on_sport_def sendStreamFrame_def out_def)
  with before early' show ?thesis by blast
qed

section \<open>Examples\<close>

definition example_env :: "(u64, u64) life_env" where
  "example_env = \<lparr>le_sdk = counting_sdk, le_peer = peer_with ''b'' 2 [''10.250.0.2/32'']\<rparr>"

definition example_port :: "u64 stream_port" where
  "example_port = new_port (UserRef 1 2) ''id'' 0 4"

text \<open>A lifecycle that has lost the path of its stream and waits for the peer's sessions.\<close>

definition example_lost :: "(u64, u64) lc" where
  "example_lost =
     (startStreamLoop example_env
        ((newRuntime example_config [] (UserRef 1 1))\<lparr>r_sports := [0 \<mapsto> example_port], r_nextPort := 1, r_streamPorts := [UserRef 1 2 \<mapsto> 0]\<rparr>))
     \<lparr>lc_pc := LRecResolve 0\<rparr>"

definition two_sessions :: "resolved_session list" where
  "two_sessions = [\<lparr>rs_Session = SessionRef 1 ''s'', rs_TransientCapable = True\<rparr>,
     \<lparr>rs_Session = SessionRef 1 ''s'', rs_TransientCapable = True\<rparr>,
     \<lparr>rs_Session = SessionRef 3 ''old'', rs_TransientCapable = False\<rparr>,
     \<lparr>rs_Session = SessionRef 2 ''t'', rs_TransientCapable = True\<rparr>]"

lemma example_simps [simp]:
  "le_sdk example_env = counting_sdk" "le_peer example_env = peer_with ''b'' 2 [''10.250.0.2/32'']"
  "UserRef_ToTurntf (peer_User (peer_with n i raws)) = UserRef 1 i"
  "sdk_isZero counting_sdk z \<longleftrightarrow> z = zero_session" "sdk_sender counting_sdk = counting_sender"
  "sender_Resume counting_sender off e a = (([], None), off)" "sender_Acknowledge counting_sender off x y z' = (None, off)"
  by (simp_all add: example_env_def peer_with_def UserRef_ToTurntf_def counting_sdk_def counting_sender_def)

lemma two_candidates: "transientStreamSessions (\<lambda>z. z = zero_session) two_sessions = [SessionRef 1 ''s'', SessionRef 2 ''t'']"
  by (simp add: transientStreamSessions_def two_sessions_def zero_session_def)

theorem failed_recovery_rebuilds_witness:
  "let t = fold (streamLoop example_env) [EvResolved (Inr two_sessions), EvSent None, EvTimeout, EvSent (Some ErrStreamAckStalled)] example_lost
   in lc_pc t = LTop \<and>
      map (\<lambda>(u, c, f). (u, c, fr_Kind f, fr_Epoch f)) (r_sent (lc_rt t)) =
        [(UserRef 1 2, SessionRef 1 ''s'', KResume, 2), (UserRef 1 2, SessionRef 2 ''t'', KResume, 3)]"
proof -
  have s: "lc_pc example_lost = LRecResolve 0" "r_sports (lc_rt example_lost) 0 = Some example_port"
    "\<not> sp_cancelled example_port" "\<not> lc_ctxDone example_lost" "r_sent (lc_rt example_lost) = []"
    by (simp_all add: example_lost_def startStreamLoop_def example_port_def new_port_def newRuntime_def)
  have z: "sdk_isZero counting_sdk = (\<lambda>z. z = zero_session)" by (simp add: counting_sdk_def)
  have "length [None, Some ErrStreamAckStalled] = length (accepted_resumes (sdk_sender (le_sdk example_env)) (sp_sender example_port)
      (nextEpoch example_port) (sp_lastAck example_port) (transientStreamSessions (le_isZero example_env) two_sessions))"
    by (simp add: z two_candidates)
  from failed_recovery_rebuilds [OF s(1-4) this]
  show ?thesis by (simp add: Let_def z two_candidates s(5) example_port_def new_port_def nextEpoch_def)
qed

text \<open>A sender that keeps the frames that were not acknowledged, and a port with two of them.\<close>

definition keeping_sender :: "stream_frame list sender_sdk" where
  "keeping_sender =
     \<lparr>sender_Data = (\<lambda>held payload. let f = zero_frame\<lparr>fr_Kind := KData, fr_Payload := payload\<rparr> in ((f, None), held @ [f])),
      sender_Acknowledge = (\<lambda>held _ offset _. (None, filter (\<lambda>f. offset \<le> fr_Offset f) held)),
      sender_Resume = (\<lambda>held epoch _. ((map (fr_Epoch_update (\<lambda>_. epoch)) held, None), held))\<rparr>"

definition keeping_env :: "(stream_frame list, u64) life_env" where
  "keeping_env =
     \<lparr>le_sdk = \<lparr>sdk_sender = keeping_sender, sdk_receiver = counting_receiver, sdk_isZero = (\<lambda>z. z = zero_session),
        sdk_newSender = (\<lambda>_ _ _. []), sdk_maxFrame = 131072, sdk_defaultWindow = 2097152\<rparr>,
      le_peer = peer_with ''b'' 2 [''10.250.0.2/32'']\<rparr>"

definition data_frame :: "u64 \<Rightarrow> u64 \<Rightarrow> bytes \<Rightarrow> stream_frame" where
  "data_frame epoch offset payload =
     zero_frame\<lparr>fr_Kind := KData, fr_ID := ''id'', fr_Epoch := epoch, fr_Offset := offset, fr_Payload := payload\<rparr>"

definition keeping_port :: "stream_frame list stream_port" where
  "keeping_port = new_port (UserRef 1 2) ''id'' [data_frame 1 0 [7], data_frame 1 1 [8, 9]] 4"

definition keeping_lost :: "(stream_frame list, u64) lc" where
  "keeping_lost =
     (startStreamLoop keeping_env
        ((newRuntime example_config [] (UserRef 1 1))\<lparr>r_sports := [0 \<mapsto> keeping_port], r_nextPort := 1, r_streamPorts := [UserRef 1 2 \<mapsto> 0]\<rparr>))
     \<lparr>lc_pc := LRecResolve 0\<rparr>"

text \<open>The Resume of epoch 2 is acknowledged, and both frames go out again under that epoch: as long as the
  send of the second has not returned the path is not ready, and then it is.\<close>

theorem acknowledged_resume_replays_witness:
  "let sent = fold (streamLoop keeping_env) [EvResolved (Inr two_sessions), EvSent None] keeping_lost;
       packet = \<lparr>pk_Sender = UserRef 1 2, pk_TargetSession = SessionRef 1 ''s''\<rparr>;
       ack = zero_frame\<lparr>fr_Kind := KAck, fr_ID := ''id'', fr_Epoch := 2\<rparr>;
       answered = sent\<lparr>lc_rt := OnStream (le_sdk keeping_env) packet ack (lc_rt sent)\<rparr>;
       t1 = fold (streamLoop keeping_env) [EvReady, EvSent None] answered;
       t2 = fold (streamLoop keeping_env) [EvReady, EvSent None, EvSent None] answered;
       resent = [(UserRef 1 2, SessionRef 1 ''s'', zero_frame\<lparr>fr_Kind := KResume, fr_ID := ''id'', fr_Epoch := 2, fr_Offset := 0\<rparr>),
         (UserRef 1 2, SessionRef 1 ''s'', data_frame 2 0 [7]), (UserRef 1 2, SessionRef 1 ''s'', data_frame 2 1 [8, 9])]
   in \<not> sp_readyState (lc_port t1 0) \<and> r_sent (lc_rt t1) = resent \<and>
      lc_pc t2 = LRun 0 \<and> r_activeStreams (lc_rt t2) (UserRef 1 2) = Some 0 \<and> sp_readyState (lc_port t2 0) \<and>
      r_sent (lc_rt t2) = resent"
proof -
  let ?packet = "\<lparr>pk_Sender = UserRef 1 2, pk_TargetSession = SessionRef 1 ''s''\<rparr>"
  let ?ack = "zero_frame\<lparr>fr_Kind := KAck, fr_ID := ''id'', fr_Epoch := 2\<rparr>"
  let ?frames = "[data_frame 2 0 [7], data_frame 2 1 [8, 9]]"
  have env: "le_peer keeping_env = peer_with ''b'' 2 [''10.250.0.2/32'']"
    "sdk_sender (le_sdk keeping_env) = keeping_sender" "sdk_isZero (le_sdk keeping_env) = (\<lambda>z. z = zero_session)"
    by (simp_all add: keeping_env_def)
  have s: "lc_pc keeping_lost = LRecResolve 0" "r_sports (lc_rt keeping_lost) 0 = Some keeping_port"
    "\<not> sp_cancelled keeping_port" "\<not> lc_ctxDone keeping_lost" "port_inv keeping_port"
    "r_streamPorts (lc_rt keeping_lost) (le_target keeping_env) = Some 0"
    and r: "r_sent (lc_rt keeping_lost) = []"
    by (simp_all add: keeping_lost_def startStreamLoop_def keeping_port_def newRuntime_def port_inv_new env) (simp add: new_port_def)
  have z: "transientStreamSessions (le_isZero keeping_env) two_sessions = SessionRef 1 ''s'' # [SessionRef 2 ''t'']"
    by (simp only: env two_candidates)
  have port: "sp_sender keeping_port = [data_frame 1 0 [7], data_frame 1 1 [8, 9]]" "nextEpoch keeping_port = 2"
    "sp_lastAck keeping_port = 0" "sp_id keeping_port = ''id''"
    by (simp_all add: keeping_port_def new_port_def nextEpoch_def)
  have f: "sender_Resume (sdk_sender (le_sdk keeping_env)) (sp_sender keeping_port) (nextEpoch keeping_port) (sp_lastAck keeping_port) =
      ((?frames, None), sp_sender keeping_port)"
    by (simp add: env keeping_sender_def port data_frame_def)
  have a: "fr_Kind ?ack = KAck" "fr_ID ?ack = sp_id keeping_port" "fr_Epoch ?ack = nextEpoch keeping_port"
    "pk_Sender ?packet = le_target keeping_env" "pk_TargetSession ?packet = SessionRef 1 ''s''"
    by (simp_all add: port env)
  have k: "fst (sender_Acknowledge (sdk_sender (le_sdk keeping_env)) (sp_sender keeping_port) (fr_Epoch ?ack) (fr_Offset ?ack) (fr_Window ?ack)) = None"
    by (simp add: env keeping_sender_def)
  have n: "Suc 0 < length ?frames" "replicate (length ?frames) (EvSent None) = [EvSent None, EvSent None]"
    "replicate (Suc 0) (EvSent None) = [EvSent None]" by simp_all
  have t: "le_target keeping_env = UserRef 1 2" by (simp add: env)
  note replays = acknowledged_resume_replays [OF s z f a k, unfolded n(2)]
  from replays n(1) show ?thesis unfolding Let_def t port r
    by (elim conjE) (drule spec [of _ "Suc 0"], simp add: t port r)
qed

lemma own_steps: "(life_step env)\<^sup>*\<^sup>* s (fold (streamLoop env) evs s)"
proof (induction evs arbitrary: s)
  case (Cons ev evs)
  from Cons [of "streamLoop env ev s"] life_step.own [of env s ev] show ?case
    by (simp add: converse_rtranclp_into_rtranclp)
qed simp

text \<open>The stream of a peer is opened from nothing.\<close>

definition example_opening :: "(u64, u64) lc" where
  "example_opening = fold (streamLoop example_env) [EvGo, EvResolved (Inr two_sessions), EvNewID (Some ''id''), EvSent None]
     (startStreamLoop example_env (newRuntime example_config [] (UserRef 1 1)))"

definition example_opened :: "(u64, u64) lc" where
  "example_opened = streamLoop example_env EvReady
     (example_opening\<lparr>lc_rt := OnStream counting_sdk \<lparr>pk_Sender = UserRef 1 2, pk_TargetSession = SessionRef 1 ''s''\<rparr>
        (zero_frame\<lparr>fr_Kind := KOpenAck, fr_ID := ''id'', fr_Epoch := 1\<rparr>) (lc_rt example_opening)\<rparr>)"

lemma example_run: "(life_step example_env)\<^sup>*\<^sup>* (startStreamLoop example_env (newRuntime example_config [] (UserRef 1 1))) example_opened"
proof -
  let ?answered = "example_opening\<lparr>lc_rt := OnStream counting_sdk \<lparr>pk_Sender = UserRef 1 2, pk_TargetSession = SessionRef 1 ''s''\<rparr>
        (zero_frame\<lparr>fr_Kind := KOpenAck, fr_ID := ''id'', fr_Epoch := 1\<rparr>) (lc_rt example_opening)\<rparr>"
  have "(life_step example_env)\<^sup>*\<^sup>* (startStreamLoop example_env (newRuntime example_config [] (UserRef 1 1))) example_opening"
    unfolding example_opening_def by (rule own_steps)
  moreover have "life_step example_env example_opening ?answered"
    by (rule life_step.other) (simp add: handlers_are_others)
  moreover have "life_step example_env ?answered example_opened" unfolding example_opened_def by (rule life_step.own)
  ultimately show ?thesis by (meson rtranclp.rtrancl_into_rtrancl)
qed

lemma beginOpen_new: "beginOpen c (new_port u i ss n) =
    ((new_port u i ss n)\<lparr>sp_targetSession := c, sp_ready := 2, sp_attemptErr := 3, sp_fresh := 4\<rparr>, 2, 3)"
  by (simp add: beginOpen_def remake_ready_def remake_attemptErr_def new_port_def Let_def)

abbreviation example_slots :: nat where
  "example_slots \<equiv> nat (tr_SendQueueSize (cfg_Transport example_config))"

lemma example_opening_eq:
  "lc_pc example_opening = LOpenWait zero_session
     \<lparr>at_pid = 0, at_session = SessionRef 1 ''s'', at_rest = [SessionRef 2 ''t''], at_ready = 2, at_errs = 3\<rparr>"
  "r_streamPorts (lc_rt example_opening) = [UserRef 1 2 \<mapsto> 0]"
  "r_sports (lc_rt example_opening) = [0 \<mapsto> (new_port (UserRef 1 2) ''id'' 0 example_slots)
     \<lparr>sp_targetSession := SessionRef 1 ''s'', sp_ready := 2, sp_attemptErr := 3, sp_fresh := 4\<rparr>]"
  unfolding example_opening_def
  by (simp_all add: streamLoop_def startStreamLoop_def preferredSession_def newRuntime_def Let_def
      lc_candidates_def transientStreamSessions_def two_sessions_def zero_session_def
      installPort_def counting_sdk_def beginOpen_new on_sport_def sendStreamFrame_def)

lemma example_opened_eq: "lc_pc example_opened = LRun 0" "r_activeStreams (lc_rt example_opened) (UserRef 1 2) = Some 0"
  unfolding example_opened_def
  by (simp_all add: streamLoop_def example_opening_eq OnStream_def OnOpenAck_def on_sport_def
      acceptOpenAck_def close_chan_def new_port_def lc_activate_def activateStream_def)

theorem lifecycle_owns_outlet_witness:
  "r_activeStreams (lc_rt example_opened) (UserRef 1 2) = Some 0 \<and> lc_pc example_opened = LRun 0 \<and>
   (\<exists>p. r_sports (lc_rt example_opened) 0 = Some p \<and> \<not> sp_panicked p) \<and> lc_fallback example_opened"
proof -
  from lifecycle_owns_outlet [OF example_run] example_opened_eq
  show ?thesis by (simp add: shouldDial_def peer_with_def UserRef_ToTurntf_def)
qed

end
