(* ===== verification/Lease.thy ===== *)
theory Lease
  imports Route "HOL-Library.Monad_Syntax"
begin

text \<open>
  The overlay of internal/tun/kvclient.go, lease.go and dynamic.go: a node leases an address from a
  pool in a key-value service, renews and releases the lease, and finds its peers among the leases
  of the others. The HTTP service and the JSON codec are parameters: \<open>'k\<close> is the state of the
  service, \<open>'b\<close> a response body, \<open>'v\<close> a stored value. Times are nanoseconds since the epoch.
\<close>

section \<open>Addresses\<close>

text \<open>\<open>fmt.Sscanf\<close> with \<open>%d.%d.%d.%d\<close>: each verb skips spaces (a newline is an error), takes an
  optional sign and decimal digits; what follows the last verb is not looked at. A number too
  large for an \<open>int\<close> is an error there and out of range here.\<close>

function scan_space :: "string \<Rightarrow> string option" where
  "scan_space s =
     (if s \<noteq> [] \<and> hd s = CHR 0x0A then None
      else case find (\<lambda>w. w \<noteq> [] \<and> take (length w) s = w) space_runes of
             None \<Rightarrow> Some s
           | Some w \<Rightarrow> scan_space (drop (length w) s))"
  by pat_completeness auto
termination
  by (relation "measure length") (use find_shorter in auto)

declare scan_space.simps [simp del]

definition decimal :: "string \<Rightarrow> int" where
  "decimal ds = foldl (\<lambda>n c. 10 * n + int (digit_val c)) 0 ds"

definition scan_int :: "string \<Rightarrow> (int \<times> string) option" where
  "scan_int s =
     (case scan_space s of
        None \<Rightarrow> None
      | Some s \<Rightarrow>
          (let negative = (s \<noteq> [] \<and> hd s = CHR ''-'');
               s = (if s \<noteq> [] \<and> (hd s = CHR ''-'' \<or> hd s = CHR ''+'') then tl s else s);
               ds = takeWhile is_digit s
           in if ds = [] then None
              else Some (if negative then - decimal ds else decimal ds, dropWhile is_digit s)))"

definition scan_dot :: "string \<Rightarrow> string option" where
  "scan_dot s = (if s \<noteq> [] \<and> hd s = CHR ''.'' then Some (tl s) else None)"

definition scan_quad :: "string \<Rightarrow> (int \<times> int \<times> int \<times> int) option" where
  "scan_quad raw = do {
     (a, s) \<leftarrow> scan_int raw; s \<leftarrow> scan_dot s;
     (b, s) \<leftarrow> scan_int s; s \<leftarrow> scan_dot s;
     (c, s) \<leftarrow> scan_int s; s \<leftarrow> scan_dot s;
     (d, s) \<leftarrow> scan_int s;
     Some (a, b, c, d) }"

datatype kv_error =
    KvNotFound | KvApi nat | KvLogin nat | KvTransport string | KvDecode string | KvCompareFailed
  | InvalidPoolAddress string | PoolExhausted | KvPanic

definition parseIPv4 :: "string \<Rightarrow> kv_error + u32" where
  "parseIPv4 raw =
     (case scan_quad raw of
        None \<Rightarrow> Inl (InvalidPoolAddress raw)
      | Some (a, b, c, d) \<Rightarrow>
          if a < 1 \<or> a > 254 \<or> b < 0 \<or> b > 255 \<or> c < 0 \<or> c > 255 \<or> d < 1 \<or> d > 254
          then Inl (InvalidPoolAddress raw)
          else Inr (push_bit 24 (of_int a) OR push_bit 16 (of_int b) OR push_bit 8 (of_int c) OR of_int d))"

text \<open>The verb \<open>%d\<close> of \<open>Sprintf\<close> on a byte, and the address of a pool position.\<close>

definition digit_char :: "nat \<Rightarrow> char" where
  "digit_char n = char_of (48 + n)"

fun dec :: "nat \<Rightarrow> string" where
  "dec n = (if n < 10 then [digit_char n] else dec (n div 10) @ [digit_char (n mod 10)])"

declare dec.simps [simp del]

definition ip_byte :: "nat \<Rightarrow> u32 \<Rightarrow> nat" where
  "ip_byte k ip = unat (ucast (drop_bit k ip) :: byte)"

definition format_ip :: "u32 \<Rightarrow> string" where
  "format_ip ip = dec (ip_byte 24 ip) @ ''.'' @ dec (ip_byte 16 ip) @ ''.'' @ dec (ip_byte 8 ip) @ ''.'' @ dec (ip_byte 0 ip)"

definition lease_prefix :: string where
  "lease_prefix = ''leases/by-ip/''"

definition lease_key :: "u32 \<Rightarrow> string" where
  "lease_key ip = lease_prefix @ format_ip ip"

section \<open>The client\<close>

record overlay_lease =
  le_Key :: string
  le_Address :: string
  le_Revision :: u64

record lease_value =
  lv_NodeID :: int
  lv_UserID :: int
  lv_Address :: string
  lv_ExpiresAt :: int

record 'v kv_entry =
  ke_Revision :: u64
  ke_Value :: 'v
  ke_ModRevision :: u64

record kv_txn_response =
  kt_Revision :: u64
  kt_Succeeded :: bool

datatype kv_compare = KeyAbsent string | KeyRevision string u64

datatype 'v kv_body =
    NoBody | LoginBody string string | TxnBody "kv_compare list" "(string \<times> 'v) list" "string list" | PutBody 'v

record 'v kv_request =
  rq_Method :: string
  rq_URL :: string
  rq_Token :: "string option"
  rq_Body :: "'v kv_body"

text \<open>
  What is not ours: the error of building a request for a method and a URL, the exchange with its status
  and body, or its error; \<open>encoding/json\<close> on each type that is encoded or decoded. \<open>json_Lease\<close> encodes a lease with its expiry
  in RFC 3339, \<open>json_Expiry\<close> and \<open>json_Value\<close> decode the fields their callers ask for.
\<close>

record ('k, 'b, 'v) kv_http =
  http_NewRequest :: "string \<Rightarrow> string \<Rightarrow> string option"
  http_Do :: "'v kv_request \<Rightarrow> 'k \<Rightarrow> (string + nat \<times> 'b) \<times> 'k"
  json_Entry :: "'b \<Rightarrow> string + 'v kv_entry"
  json_Txn :: "'b \<Rightarrow> string + kv_txn_response"
  json_List :: "'b \<Rightarrow> string + (string \<times> 'v) list"
  json_Token :: "'b \<Rightarrow> string + string"
  json_Lease :: "lease_value \<Rightarrow> 'v"
  json_Expiry :: "'v \<Rightarrow> int option"
  json_Value :: "'v \<Rightarrow> lease_value option"

record kv_client =
  kc_base :: string
  kc_token :: string

text \<open>\<open>url.PathEscape\<close>, byte by byte.\<close>

definition path_plain :: "char \<Rightarrow> bool" where
  "path_plain c \<longleftrightarrow>
     (let n = (of_char c :: nat) in 48 \<le> n \<and> n \<le> 57 \<or> 65 \<le> n \<and> n \<le> 90 \<or> 97 \<le> n \<and> n \<le> 122) \<or>
     c \<in> set ''-_.~$&+:=@''"

definition hex_digit :: "nat \<Rightarrow> char" where
  "hex_digit n = char_of (if n < 10 then 48 + n else 55 + n)"

definition PathEscape :: "string \<Rightarrow> string" where
  "PathEscape s = concat (map (\<lambda>c. if path_plain c then [c]
     else [CHR ''%'', hex_digit (of_char c div 16), hex_digit (of_char c mod 16)]) s)"

definition newKVHTTPClient :: "turntf_config \<Rightarrow> kv_client" where
  "newKVHTTPClient cfg = \<lparr>kc_base = rev (dropWhile (\<lambda>c. c = CHR ''/'') (rev (BaseURL cfg))), kc_token = ''''\<rparr>"

text \<open>\<open>login\<close> ignores the error of building its request and then uses the request: without one it panics,
  which is \<open>KvPanic\<close> here, no error value but the end of the program.\<close>

definition kv_login ::
    "('k, 'b, 'v) kv_http \<Rightarrow> credentials_config \<Rightarrow> kv_client \<Rightarrow> 'k \<Rightarrow> (kv_error + kv_client) \<times> 'k" where
  "kv_login http creds c k =
     (if http_NewRequest http ''POST'' (kc_base c @ ''/auth/login'') \<noteq> None then (Inl KvPanic, k)
      else case http_Do http \<lparr>rq_Method = ''POST'', rq_URL = kc_base c @ ''/auth/login'', rq_Token = None,
                        rq_Body = LoginBody (cr_LoginName creds) (pw_Value (cr_Password creds))\<rparr> k of
        (Inl e, k) \<Rightarrow> (Inl (KvTransport e), k)
      | (Inr (status, body), k) \<Rightarrow>
          if status \<noteq> 200 then (Inl (KvLogin status), k)
          else (case json_Token http body of
                  Inl e \<Rightarrow> (Inl (KvDecode e), k)
                | Inr token \<Rightarrow> (Inr (c\<lparr>kc_token := token\<rparr>), k)))"

definition kv_do ::
    "('k, 'b, 'v) kv_http \<Rightarrow> kv_client \<Rightarrow> string \<Rightarrow> string \<Rightarrow> 'v kv_body \<Rightarrow> 'k \<Rightarrow> (kv_error + 'b) \<times> 'k" where
  "kv_do http c method path body k =
     (case http_NewRequest http method (kc_base c @ path) of
        Some e \<Rightarrow> (Inl (KvTransport e), k)
      | None \<Rightarrow>
          (case http_Do http \<lparr>rq_Method = method, rq_URL = kc_base c @ path, rq_Token = Some (kc_token c), rq_Body = body\<rparr> k of
             (Inl e, k) \<Rightarrow> (Inl (KvTransport e), k)
           | (Inr (status, response), k) \<Rightarrow>
               if status < 200 \<or> status \<ge> 300
               then (Inl (if status = 404 then KvNotFound else KvApi status), k)
               else (Inr response, k)))"

definition decoded :: "('b \<Rightarrow> string + 'a) \<Rightarrow> (kv_error + 'b) \<times> 'k \<Rightarrow> (kv_error + 'a) \<times> 'k" where
  "decoded decode r =
     (case r of
        (Inl e, k) \<Rightarrow> (Inl e, k)
      | (Inr b, k) \<Rightarrow> (case decode b of Inl e \<Rightarrow> (Inl (KvDecode e), k) | Inr x \<Rightarrow> (Inr x, k)))"

definition key_path :: "string \<Rightarrow> string \<Rightarrow> string" where
  "key_path db key = ''/kv/'' @ PathEscape db @ ''/keys/'' @ PathEscape key"

definition kv_get ::
    "('k, 'b, 'v) kv_http \<Rightarrow> kv_client \<Rightarrow> string \<Rightarrow> string \<Rightarrow> 'k \<Rightarrow> (kv_error + 'v kv_entry) \<times> 'k" where
  "kv_get http c db key k = decoded (json_Entry http) (kv_do http c ''GET'' (key_path db key) NoBody k)"

text \<open>The request and the decoding that \<open>txn\<close>, \<open>renew\<close> and \<open>releaseLease\<close> share.\<close>

definition txn_do ::
    "('k, 'b, 'v) kv_http \<Rightarrow> kv_client \<Rightarrow> string \<Rightarrow> kv_compare list \<Rightarrow> (string \<times> 'v) list \<Rightarrow> string list \<Rightarrow> 'k \<Rightarrow>
     (kv_error + kv_txn_response) \<times> 'k" where
  "txn_do http c db compares puts deletes k =
     decoded (json_Txn http) (kv_do http c ''POST'' (''/kv/'' @ PathEscape db @ ''/txn'') (TxnBody compares puts deletes) k)"

definition kv_txn ::
    "('k, 'b, 'v) kv_http \<Rightarrow> kv_client \<Rightarrow> string \<Rightarrow> kv_compare list \<Rightarrow> (string \<times> 'v) list \<Rightarrow> 'k \<Rightarrow> kv_error option \<times> 'k" where
  "kv_txn http c db compares puts k =
     (case txn_do http c db compares puts [] k of
        (Inl e, k) \<Rightarrow> (Some e, k)
      | (Inr out, k) \<Rightarrow> (if kt_Succeeded out then None else Some KvCompareFailed, k))"

definition kv_put ::
    "('k, 'b, 'v) kv_http \<Rightarrow> kv_client \<Rightarrow> string \<Rightarrow> string \<Rightarrow> 'v \<Rightarrow> 'k \<Rightarrow> kv_error option \<times> 'k" where
  "kv_put http c db key value k =
     (case kv_do http c ''PUT'' (key_path db key) (PutBody value) k of (Inl e, k) \<Rightarrow> (Some e, k) | (Inr _, k) \<Rightarrow> (None, k))"

definition kv_remove ::
    "('k, 'b, 'v) kv_http \<Rightarrow> kv_client \<Rightarrow> string \<Rightarrow> string \<Rightarrow> 'k \<Rightarrow> kv_error option \<times> 'k" where
  "kv_remove http c db key k =
     (case kv_do http c ''DELETE'' (key_path db key) NoBody k of (Inl e, k) \<Rightarrow> (Some e, k) | (Inr _, k) \<Rightarrow> (None, k))"

section \<open>Acquiring, renewing and releasing\<close>

text \<open>RFC 3339 has whole seconds.\<close>

definition rfc3339 :: "int \<Rightarrow> int" where
  "rfc3339 t = t div second * second"

definition lease_of :: "user_ref \<Rightarrow> string \<Rightarrow> int \<Rightarrow> lease_value" where
  "lease_of node address expires =
     \<lparr>lv_NodeID = NodeID node, lv_UserID = UserID node, lv_Address = address, lv_ExpiresAt = rfc3339 expires\<rparr>"

definition renew ::
    "('k, 'b, 'v) kv_http \<Rightarrow> kv_client \<Rightarrow> overlay_config \<Rightarrow> overlay_lease \<Rightarrow> user_ref \<Rightarrow> int \<Rightarrow> 'k \<Rightarrow>
     (kv_error + overlay_lease) \<times> 'k" where
  "renew http c cfg lease node now k =
     (case kv_get http c (ov_Database cfg) (le_Key lease) k of
        (Inl e, k) \<Rightarrow> (Inl e, k)
      | (Inr entry, k) \<Rightarrow>
          (let value = json_Lease http (lease_of node (le_Address lease) (now + ov_LeaseDuration cfg))
           in case txn_do http c (ov_Database cfg) [KeyRevision (le_Key lease) (ke_ModRevision entry)]
                     [(le_Key lease, value)] [] k of
                (Inl e, k) \<Rightarrow> (Inl e, k)
              | (Inr out, k) \<Rightarrow> (if kt_Succeeded out then Inr (lease\<lparr>le_Revision := kt_Revision out\<rparr>) else Inl KvCompareFailed, k)))"

datatype pool_turn = Taken overlay_lease | NextAddress | AcquireFailed kv_error

text \<open>One turn of the loop over the pool.\<close>

definition acquire_turn ::
    "('k, 'b, 'v) kv_http \<Rightarrow> kv_client \<Rightarrow> overlay_config \<Rightarrow> user_ref \<Rightarrow> int \<Rightarrow> u32 \<Rightarrow> 'k \<Rightarrow> pool_turn \<times> 'k" where
  "acquire_turn http c cfg node now ip k =
     (let key = lease_key ip; address = drop (length lease_prefix) key;
          (entry, k) = kv_get http c (ov_Database cfg) key k;
          claim = (\<lambda>compare.
            (let value = json_Lease http (lease_of node address (now + ov_LeaseDuration cfg));
                 (err, k) = kv_txn http c (ov_Database cfg) [compare] [(key, value)] k
             in (if err = None then Taken \<lparr>le_Key = key, le_Address = address @ ''/32'', le_Revision = 0\<rparr> else NextAddress, k)))
      in case entry of
           Inr e \<Rightarrow>
             (case json_Expiry http (ke_Value e) of
                Some expires \<Rightarrow> if expires > now then (NextAddress, k) else claim (KeyRevision key (ke_ModRevision e))
              | None \<Rightarrow> claim (KeyRevision key (ke_ModRevision e)))
         | Inl err \<Rightarrow> if err \<noteq> KvNotFound then (AcquireFailed err, k) else claim (KeyAbsent key))"

text \<open>The loop \<open>for ip := start; ip <= end; ip++\<close> on \<open>uint32\<close>; None is a loop that does not end.\<close>

partial_function (option) acquire_loop ::
    "('k, 'b, 'v) kv_http \<Rightarrow> kv_client \<Rightarrow> overlay_config \<Rightarrow> user_ref \<Rightarrow> int \<Rightarrow> u32 \<Rightarrow> u32 \<Rightarrow> 'k \<Rightarrow>
     ((kv_error + overlay_lease) \<times> 'k) option" where
  "acquire_loop http c cfg node now ip last_ip k =
     (if ip \<le> last_ip
      then (case acquire_turn http c cfg node now ip k of
              (Taken lease, k) \<Rightarrow> Some (Inr lease, k)
            | (AcquireFailed e, k) \<Rightarrow> Some (Inl e, k)
            | (NextAddress, k) \<Rightarrow> acquire_loop http c cfg node now (ip + 1) last_ip k)
      else Some (Inl PoolExhausted, k))"

definition acquire ::
    "('k, 'b, 'v) kv_http \<Rightarrow> kv_client \<Rightarrow> overlay_config \<Rightarrow> user_ref \<Rightarrow> int \<Rightarrow> 'k \<Rightarrow>
     ((kv_error + overlay_lease) \<times> 'k) option" where
  "acquire http c cfg node now k =
     (if ov_StaticAddress cfg \<noteq> ''''
      then Some (Inr \<lparr>le_Key = '''', le_Address = ov_StaticAddress cfg @ ''/32'', le_Revision = 0\<rparr>, k)
      else case parseIPv4 (ov_PoolStart cfg) of
        Inl e \<Rightarrow> Some (Inl e, k)
      | Inr start \<Rightarrow> (case parseIPv4 (ov_PoolEnd cfg) of
          Inl e \<Rightarrow> Some (Inl e, k)
        | Inr last_ip \<Rightarrow> acquire_loop http c cfg node now start last_ip k))"

definition releaseLease ::
    "('k, 'b, 'v) kv_http \<Rightarrow> kv_client \<Rightarrow> string \<Rightarrow> overlay_lease \<Rightarrow> 'k \<Rightarrow> kv_error option \<times> 'k" where
  "releaseLease http c db lease k =
     (if le_Key lease = '''' then (None, k)
      else case kv_get http c db (le_Key lease) k of
        (Inl e, k) \<Rightarrow> (Some e, k)
      | (Inr entry, k) \<Rightarrow>
          (case txn_do http c db [KeyRevision (le_Key lease) (ke_ModRevision entry)] [] [le_Key lease] k of
             (Inl e, k) \<Rightarrow> (Some e, k)
           | (Inr out, k) \<Rightarrow> (if kt_Succeeded out then None else Some KvCompareFailed, k)))"

text \<open>\<open>renewOverlayLease\<close>: the interval of its ticker, and the lease after a number of ticks, each at
  its own time.\<close>

definition renew_interval :: "overlay_config \<Rightarrow> int" where
  "renew_interval cfg =
     (let interval = go_div (ov_LeaseDuration cfg) 3 in if interval < minute then minute else interval)"

fun renewOverlayLease ::
    "('k, 'b, 'v) kv_http \<Rightarrow> kv_client \<Rightarrow> overlay_config \<Rightarrow> user_ref \<Rightarrow> int list \<Rightarrow> overlay_lease \<Rightarrow> 'k \<Rightarrow> overlay_lease \<times> 'k" where
  "renewOverlayLease http c cfg node [] lease k = (lease, k)"
| "renewOverlayLease http c cfg node (now # ticks) lease k =
     (case renew http c cfg lease node now k of
        (Inr next, k) \<Rightarrow> renewOverlayLease http c cfg node ticks next k
      | (Inl _, k) \<Rightarrow> renewOverlayLease http c cfg node ticks lease k)"

section \<open>Discovery\<close>

definition listLeaseValues ::
    "('k, 'b, 'v) kv_http \<Rightarrow> kv_client \<Rightarrow> string \<Rightarrow> 'k \<Rightarrow> (kv_error + (string \<times> 'v) list) \<times> 'k" where
  "listLeaseValues http c db k =
     decoded (json_List http) (kv_do http c ''GET'' (''/kv/'' @ PathEscape db @ ''/list?prefix=leases/by-ip/'') NoBody k)"

definition lease_user :: "lease_value \<Rightarrow> user_ref" where
  "lease_user v = UserRef (lv_NodeID v) (lv_UserID v)"

text \<open>The test that skips an item.\<close>

definition usable_lease :: "user_ref \<Rightarrow> int \<Rightarrow> lease_value \<Rightarrow> bool" where
  "usable_lease self now v \<longleftrightarrow>
     \<not> (lv_NodeID v \<le> 0 \<or> lv_UserID v \<le> 0 \<or> lv_Address v = '''' \<or> lv_ExpiresAt v < now \<or>
        lv_NodeID v = NodeID self \<and> lv_UserID v = UserID self)"

definition lease_peer :: "lease_value \<Rightarrow> peer_config" where
  "lease_peer v =
     \<lparr>peer_Name = lv_Address v, peer_User = \<lparr>ur_NodeID = lv_NodeID v, ur_UserID = lv_UserID v\<rparr>,
      peer_Routes = [lv_Address v @ ''/32''], peer_TransportMode = '''', peer_DialPolicy = ''auto''\<rparr>"

text \<open>The loop over the items, which come in the order the map is visited in.\<close>

fun discover_loop ::
    "('v \<Rightarrow> lease_value option) \<Rightarrow> user_ref \<Rightarrow> int \<Rightarrow> 'v list \<Rightarrow> user_ref set \<Rightarrow> peer_config list \<Rightarrow> peer_config list" where
  "discover_loop decode self now [] seen out = out"
| "discover_loop decode self now (item # items) seen out =
     (case decode item of
        None \<Rightarrow> discover_loop decode self now items seen out
      | Some v \<Rightarrow>
          if \<not> usable_lease self now v \<or> lease_user v \<in> seen
          then discover_loop decode self now items seen out
          else discover_loop decode self now items (insert (lease_user v) seen) (out @ [lease_peer v]))"

definition discoverOverlayPeers ::
    "('k, 'b, 'v) kv_http \<Rightarrow> kv_client \<Rightarrow> overlay_config \<Rightarrow> user_ref \<Rightarrow> peer_config list \<Rightarrow> int \<Rightarrow> 'k \<Rightarrow>
     (kv_error + peer_config list) \<times> 'k" where
  "discoverOverlayPeers http c cfg self existing now k =
     (case listLeaseValues http c (ov_Database cfg) k of
        (Inl e, k) \<Rightarrow> (Inl e, k)
      | (Inr items, k) \<Rightarrow>
          (Inr (discover_loop (json_Value http) self now (map snd items)
                  (set (map (\<lambda>p. peer_ref p) existing)) existing), k))"

section \<open>The pool is a range of words\<close>

lemma of_int_byte: "0 \<le> a \<Longrightarrow> a \<le> 255 \<Longrightarrow> (of_int a :: u32) = ucast (of_int a :: byte)"
  by (simp add: unsigned_of_int take_bit_int_eq_self)

lemma unat_of_int_byte: "0 \<le> a \<Longrightarrow> a \<le> 255 \<Longrightarrow> unat (of_int a :: byte) = nat a"
  by (simp add: unsigned_of_int take_bit_int_eq_self)

text \<open>What \<open>parseIPv4\<close> builds is the big-endian word of the four numbers.\<close>

lemma parseIPv4_word:
  assumes "parseIPv4 raw = Inr ip"
  obtains a b c d where "scan_quad raw = Some (a, b, c, d)" "1 \<le> a" "a \<le> 254" "0 \<le> b" "b \<le> 255"
    "0 \<le> c" "c \<le> 255" "1 \<le> d" "d \<le> 254" "putUint32 ip = [of_int a, of_int b, of_int c, of_int d]"
proof -
  from assms obtain a b c d where s: "scan_quad raw = Some (a, b, c, d)"
    by (auto simp: parseIPv4_def split: option.splits prod.splits)
  with assms have r: "1 \<le> a" "a \<le> 254" "0 \<le> b" "b \<le> 255" "0 \<le> c" "c \<le> 255" "1 \<le> d" "d \<le> 254"
    and ip: "ip = push_bit 24 (of_int a) OR push_bit 16 (of_int b) OR push_bit 8 (of_int c) OR of_int d"
    by (auto simp: parseIPv4_def split: if_splits)
  have "ip = getUint32 [of_int a, of_int b, of_int c, of_int d]"
    unfolding ip getUint32_def using r by (simp add: of_int_byte or.assoc or.commute or.left_commute)
  then have "putUint32 ip = [of_int a, of_int b, of_int c, of_int d]" by (simp add: putUint32_get)
  with s r show ?thesis by (rule that)
qed

lemma ip_bytes: "putUint32 ip = [a, b, c, d] \<Longrightarrow>
    ip_byte 24 ip = unat a \<and> ip_byte 16 ip = unat b \<and> ip_byte 8 ip = unat c \<and> ip_byte 0 ip = unat d"
  by (auto simp: putUint32_def ip_byte_def)

lemma putUint32_inj: "putUint32 v = putUint32 w \<Longrightarrow> v = w"
  by (metis append_Nil2 getUint32_put)

lemma parseIPv4_not_last:
  assumes "parseIPv4 raw = Inr ip"
  shows "ip + 1 \<noteq> 0"
proof
  assume "ip + 1 = 0"
  then have "ip = - 1" by (simp add: eq_neg_iff_add_eq_0)
  from assms obtain d where "1 \<le> d" "d \<le> (254::int)" "ip_byte 0 ip = unat (of_int d :: byte)"
    by (rule parseIPv4_word) (metis ip_bytes)
  moreover have "(ucast (- 1 :: u32) :: byte) = 255"
    by (rule bit_word_eqI) (simp add: bit_simps byte_255 bit_mask_iff)
  ultimately show False using \<open>ip = - 1\<close> by (simp add: ip_byte_def unat_of_int_byte)
qed

section \<open>The loop over the pool ends\<close>

lemma pool_step:
  assumes "last_ip + 1 \<noteq> (0 :: u32)" "ip \<le> last_ip"
  shows "unat (ip + 1) = Suc (unat ip)"
proof -
  have "ip \<noteq> - 1"
  proof
    assume "ip = - 1"
    with assms(2) have "last_ip = - 1" by (metis antisym word_n1_ge)
    with assms(1) show False by simp
  qed
  then have "ip + 1 \<noteq> 0" by (simp add: eq_neg_iff_add_eq_0)
  then show ?thesis by (simp add: unatSuc add.commute)
qed

lemma acquire_loop_returns:
  assumes "last_ip + 1 \<noteq> 0"
  shows "\<exists>r. acquire_loop http c cfg node now ip last_ip k = Some r"
proof (induction "unat last_ip + 1 - unat ip" arbitrary: ip k rule: less_induct)
  case less
  show ?case
  proof (cases "ip \<le> last_ip")
    case True
    have "unat (ip + 1) = Suc (unat ip)" by (rule pool_step [OF assms True])
    moreover have "unat ip \<le> unat last_ip" using True by (simp add: word_le_nat_alt)
    ultimately have "\<exists>r. acquire_loop http c cfg node now (ip + 1) last_ip k' = Some r" for k'
      by (intro less) simp
    with True show ?thesis
      by (subst acquire_loop.simps) (auto split: prod.splits pool_turn.splits)
  next
    case False
    then show ?thesis by (subst acquire_loop.simps) simp
  qed
qed

lemma acquire_not_None: "acquire http c cfg node now k \<noteq> None"
  using acquire_loop_returns [OF parseIPv4_not_last, where http = http and c = c and cfg = cfg and node = node and now = now]
  by (fastforce simp: acquire_def split: sum.splits)

text \<open>C33. Acquiring an address always returns: the loop over the pool runs on 32-bit words and ends
  also when the pool's end is the greatest one that is accepted, since no accepted end is the last
  word, where the increment would wrap around; this holds for every answer of the service.\<close>

theorem acquire_returns: "\<exists>r. acquire http c cfg node now k = Some r"
  using acquire_not_None by (metis not_None_eq)


section \<open>Formatting and parsing an address\<close>

lemma is_digit_digit_char [simp]: "n < 10 \<Longrightarrow> is_digit (digit_char n)"
  by (simp add: is_digit_def digit_char_def less_eq_char_def)

lemma digit_val_digit_char [simp]: "n < 10 \<Longrightarrow> digit_val (digit_char n) = n"
  by (simp add: digit_val_def digit_char_def)

lemma dec_digits: "list_all is_digit (dec n)"
  by (induction n rule: dec.induct) (subst dec.simps, simp)

lemma dec_not_Nil [simp]: "dec n \<noteq> []"
  by (subst dec.simps) simp

lemma decimal_dec: "decimal (dec n) = int n"
proof (induction n rule: dec.induct)
  case (1 n)
  show ?case
  proof (cases "n < 10")
    case True
    then show ?thesis by (subst dec.simps) (simp add: decimal_def)
  next
    case False
    with 1 have "decimal (dec (n div 10)) = int (n div 10)" by blast
    with False show ?thesis
      by (subst dec.simps) (simp add: decimal_def, presburger)
  qed
qed

lemma digit_hd_dec: "is_digit (hd (dec n))"
  using dec_digits [of n] by (cases "dec n") (auto simp: dec_not_Nil)

lemma digit_range: "is_digit c \<Longrightarrow> (of_char c :: nat) \<in> {33..126}"
  by (auto simp: is_digit_def less_eq_char_def)

lemma scan_space_digit:
  assumes "s \<noteq> []" "is_digit (hd s)"
  shows "scan_space s = Some s"
proof -
  have "find (\<lambda>w. w \<noteq> [] \<and> take (length w) s = w) space_runes = None"
    unfolding find_None_iff
  proof safe
    fix w assume w: "w \<in> set space_runes" "w \<noteq> []" "take (length w) s = w"
    then have "hd w = hd s" by (metis hd_take length_greater_0_conv)
    with space_runes_hd [OF w(1)] digit_range [OF assms(2)] show False by simp
  qed
  moreover have "hd s \<noteq> CHR 0x0A" using digit_range [OF assms(2)] by auto
  ultimately show ?thesis using assms by (subst scan_space.simps) simp
qed

lemma takeWhile_digits:
  assumes "list_all is_digit ds" "rest = [] \<or> \<not> is_digit (hd rest)"
  shows "takeWhile is_digit (ds @ rest) = ds \<and> dropWhile is_digit (ds @ rest) = rest"
proof -
  have "takeWhile is_digit rest = [] \<and> dropWhile is_digit rest = rest"
    using assms(2) by (cases rest) auto
  with assms(1) show ?thesis by (simp add: list_all_iff takeWhile_append2 dropWhile_append2)
qed

lemma scan_int_dec:
  assumes "rest = [] \<or> \<not> is_digit (hd rest)"
  shows "scan_int (dec n @ rest) = Some (int n, rest)"
proof -
  have h: "hd (dec n @ rest) = hd (dec n)" by simp
  have d: "is_digit (hd (dec n @ rest))" unfolding h by (rule digit_hd_dec)
  then have "hd (dec n @ rest) \<noteq> CHR ''-''" "hd (dec n @ rest) \<noteq> CHR ''+''"
    by (auto simp: is_digit_def less_eq_char_def)
  with takeWhile_digits [OF dec_digits assms, of n] scan_space_digit [OF _ d] show ?thesis
    by (simp add: scan_int_def decimal_dec del: hd_append2)
qed

lemma scan_quad_dec:
  assumes "rest = [] \<or> \<not> is_digit (hd rest)"
  shows "scan_quad (dec a @ ''.'' @ dec b @ ''.'' @ dec c @ ''.'' @ dec d @ rest) = Some (int a, int b, int c, int d)"
proof -
  have dot: "\<not> is_digit (CHR ''.'')" by (simp add: is_digit_def less_eq_char_def)
  show ?thesis using assms dot by (simp add: scan_quad_def scan_int_dec scan_dot_def)
qed

lemma of_nat_byte: "n \<le> 255 \<Longrightarrow> unat (of_nat n :: byte) = n"
  by (simp add: unat_of_nat)

text \<open>The pool position behind an address is read back, with anything behind it that is no digit.\<close>

lemma parseIPv4_format:
  assumes "ip_byte 24 ip \<in> {1..254}" "ip_byte 0 ip \<in> {1..254}" "rest = [] \<or> \<not> is_digit (hd rest)"
  shows "parseIPv4 (format_ip ip @ rest) = Inr ip"
proof -
  let ?r = "push_bit 24 (of_int (int (ip_byte 24 ip))) OR push_bit 16 (of_int (int (ip_byte 16 ip))) OR
    push_bit 8 (of_int (int (ip_byte 8 ip))) OR of_int (int (ip_byte 0 ip)) :: u32"
  have le: "ip_byte j ip \<le> 255" for j
    unfolding ip_byte_def using unsigned_less [of "ucast (drop_bit j ip) :: byte", where ?'a = nat] by simp
  have s: "scan_quad (format_ip ip @ rest) = Some (int (ip_byte 24 ip), int (ip_byte 16 ip), int (ip_byte 8 ip), int (ip_byte 0 ip))"
    using scan_quad_dec [OF assms(3)] by (simp add: format_ip_def)
  with assms(1,2) le have p: "parseIPv4 (format_ip ip @ rest) = Inr ?r"
    by (auto simp: parseIPv4_def not_less)
  then have "putUint32 ?r = [of_int (int (ip_byte 24 ip)), of_int (int (ip_byte 16 ip)), of_int (int (ip_byte 8 ip)), of_int (int (ip_byte 0 ip))]"
    by (rule parseIPv4_word) (simp add: s)
  also have "\<dots> = putUint32 ip" by (simp add: putUint32_def ip_byte_def)
  finally have "?r = ip" by (rule putUint32_inj)
  with p show ?thesis by simp
qed

text \<open>C34. Every address of the pool has one spelling that is read back to it: formatting an accepted
  pool position, as the loop does for the key of its lease, and parsing the result gives the
  position again, and what stands behind the fourth number does not matter to the parser as long
  as it is no digit, so the spelling with a prefix length is accepted as well.\<close>

theorem pool_address_roundtrip:
  assumes "parseIPv4 raw = Inr ip"
  shows "parseIPv4 (format_ip ip) = Inr ip \<and> parseIPv4 (format_ip ip @ ''/32'') = Inr ip"
proof -
  from assms obtain a b c d where r: "1 \<le> a" "a \<le> 254" "0 \<le> b" "b \<le> 255" "0 \<le> c" "c \<le> 255" "1 \<le> d" "d \<le> 254"
    and "putUint32 ip = [of_int a, of_int b, of_int c, of_int d]"
    by (rule parseIPv4_word) blast
  from ip_bytes [OF this(9)] r have "ip_byte 24 ip \<in> {1..254}" "ip_byte 0 ip \<in> {1..254}"
    by (auto simp: unat_of_int_byte)
  moreover have "\<not> is_digit (CHR ''/'')" by (simp add: is_digit_def less_eq_char_def)
  ultimately show ?thesis
    using parseIPv4_format [of ip "[]"] parseIPv4_format [of ip "''/32''"] by simp
qed

lemma format_example: "format_ip 0x0AFA0002 = ''10.250.0.2''"
  by (simp add: format_ip_def ip_byte_def dec.simps digit_char_def drop_bit_eq_div char_of_def bit_Suc_0_iff)

lemma parse_example: "parseIPv4 ''10.250.0.2'' = Inr 0x0AFA0002"
  using parseIPv4_format [of "0x0AFA0002" "[]"] format_example by (simp add: ip_byte_def drop_bit_eq_div)

theorem pool_address_roundtrip_witness:
  "parseIPv4 ''10.250.0.2'' = Inr 0x0AFA0002 \<and> parseIPv4 (format_ip 0x0AFA0002) = Inr 0x0AFA0002 \<and>
   parseIPv4 (format_ip 0x0AFA0002 @ ''/32'') = Inr 0x0AFA0002"
  using pool_address_roundtrip [OF parse_example] parse_example by (rule conjI [rotated])

section \<open>The renewal interval\<close>

text \<open>C40. With a lease duration that passes validation the renewal interval is a third of it, but at
  least a minute, and never longer than the duration: a lease is renewed before it expires, except
  for the shortest duration that is allowed, one minute, where the renewal is due at the moment of
  expiry.\<close>

theorem renewal_before_expiry:
  assumes "validate_overlay cfg = None" "ov_Enabled cfg"
  shows "minute \<le> renew_interval cfg \<and> renew_interval cfg \<le> ov_LeaseDuration cfg \<and>
    (renew_interval cfg = ov_LeaseDuration cfg \<longleftrightarrow> ov_LeaseDuration cfg = minute) \<and>
    renew_interval cfg = max minute (ov_LeaseDuration cfg div 3)"
proof -
  from assms have "minute \<le> ov_LeaseDuration cfg" by (auto simp: validate_overlay_def split: if_splits)
  then show ?thesis by (auto simp: renew_interval_def go_div_pos minute_def second_def Let_def)
qed

definition overlay_example :: "int \<Rightarrow> overlay_config" where
  "overlay_example d = \<lparr>ov_Enabled = True, ov_Database = ''overlay'', ov_StaticAddress = '''',
     ov_PoolStart = ''10.250.0.2'', ov_PoolEnd = ''10.250.0.2'', ov_LeaseDuration = d\<rparr>"

lemma overlay_example_valid: "minute \<le> d \<Longrightarrow> validate_overlay (overlay_example d) = None \<and> ov_Enabled (overlay_example d)"
  by (simp add: validate_overlay_def overlay_example_def TrimSpace_plain)

theorem renewal_before_expiry_witness:
  "renew_interval (overlay_example (10 * minute)) = 200 * second \<and>
   renew_interval (overlay_example minute) = ov_LeaseDuration (overlay_example minute)"
  using renewal_before_expiry [of "overlay_example (10 * minute)"] renewal_before_expiry [of "overlay_example minute"]
    overlay_example_valid [of minute] overlay_example_valid [of "10 * minute"]
  by (simp add: minute_def second_def overlay_example_def)

section \<open>Discovered peers\<close>

text \<open>The users met before an item, and the items that become peers.\<close>

fun fresh_leases :: "user_ref set \<Rightarrow> lease_value list \<Rightarrow> lease_value list" where
  "fresh_leases seen [] = []"
| "fresh_leases seen (v # vs) =
     (if lease_user v \<in> seen then fresh_leases seen vs else v # fresh_leases (insert (lease_user v) seen) vs)"

definition usable_leases :: "('v \<Rightarrow> lease_value option) \<Rightarrow> user_ref \<Rightarrow> int \<Rightarrow> 'v list \<Rightarrow> lease_value list" where
  "usable_leases decode self now items = filter (usable_lease self now) (List.map_filter decode items)"

lemma discover_loop_eq:
  "discover_loop decode self now items seen out =
   out @ map lease_peer (fresh_leases seen (usable_leases decode self now items))"
  by (induction items arbitrary: seen out)
     (auto simp: usable_leases_def map_filter_simps split: option.splits)

lemma fresh_leases_set: "set (fresh_leases seen vs) \<subseteq> set vs"
proof (induction vs arbitrary: seen)
  case (Cons v vs)
  from Cons [of seen] Cons [of "insert (lease_user v) seen"] show ?case by auto
qed simp

lemma fresh_leases_users:
  "distinct (map lease_user (fresh_leases seen vs)) \<and>
   lease_user ` set (fresh_leases seen vs) = lease_user ` set vs - seen"
  by (induction vs arbitrary: seen) auto

lemma peer_ref_lease_peer [simp]: "peer_ref (lease_peer v) = lease_user v"
  by (simp add: lease_peer_def lease_user_def UserRef_ToTurntf_def)

lemma discover_Inr:
  assumes "discoverOverlayPeers http c cfg self existing now k = (Inr peers, k')"
  obtains items where "listLeaseValues http c (ov_Database cfg) k = (Inr items, k')"
    "peers = existing @ map lease_peer (fresh_leases (set (map peer_ref existing))
        (usable_leases (json_Value http) self now (map snd items)))"
  using assms by (auto simp: discoverOverlayPeers_def discover_loop_eq split: prod.splits sum.splits)

lemma usable_leases_set:
  "set (usable_leases decode self now items) = {v. (\<exists>item \<in> set items. decode item = Some v) \<and> usable_lease self now v}"
  by (auto simp: usable_leases_def map_filter_def) (force simp: image_iff)

text \<open>C28. Discovery keeps the configured peers, in their order and in front, and adds one peer for
  every user that holds a lease which decodes, has a positive node and user, has an address, has
  not expired and is not of the node itself; no user comes twice, and each added peer is the one
  of such a lease.\<close>

theorem discovery_adds_each_leaseholder_once:
  assumes "discoverOverlayPeers http c cfg self existing now k = (Inr peers, k')"
    and "distinct (map peer_ref existing)"
  shows "\<exists>items. listLeaseValues http c (ov_Database cfg) k = (Inr items, k') \<and>
    (let live = {v. (\<exists>item \<in> snd ` set items. json_Value http item = Some v) \<and> usable_lease self now v}
     in take (length existing) peers = existing \<and> distinct (map peer_ref peers) \<and>
        set (drop (length existing) peers) \<subseteq> lease_peer ` live \<and>
        set (map peer_ref peers) = set (map peer_ref existing) \<union> lease_user ` live)"
proof -
  from assms(1) obtain items where items: "listLeaseValues http c (ov_Database cfg) k = (Inr items, k')"
    and peers: "peers = existing @ map lease_peer (fresh_leases (set (map peer_ref existing))
        (usable_leases (json_Value http) self now (map snd items)))"
    by (rule discover_Inr)
  let ?live = "set (usable_leases (json_Value http) self now (map snd items))"
  let ?new = "fresh_leases (set (map peer_ref existing)) (usable_leases (json_Value http) self now (map snd items))"
  have refs: "map peer_ref peers = map peer_ref existing @ map lease_user ?new"
    by (simp add: peers o_def)
  have "take (length existing) peers = existing" by (simp add: peers)
  moreover have "distinct (map peer_ref peers)"
    unfolding refs using fresh_leases_users [of "set (map peer_ref existing)"] assms(2) by auto
  moreover have "set (drop (length existing) peers) \<subseteq> lease_peer ` ?live"
    using fresh_leases_set by (auto simp: peers)
  moreover have "set (map peer_ref peers) = set (map peer_ref existing) \<union> lease_user ` ?live"
    unfolding refs using fresh_leases_users [of "set (map peer_ref existing)"] by auto
  ultimately show ?thesis
    by (intro exI [of _ items] conjI items) (simp add: usable_leases_set)
qed

text \<open>A string with two slashes is no prefix.\<close>

lemma dtoi_loop_slash: "dtoi_loop n s = Some (m, rest) \<Longrightarrow> CHR ''/'' \<in> set s \<Longrightarrow> rest \<noteq> []"
proof (induction n s rule: dtoi_loop.induct)
  case (2 n c s)
  have "\<not> is_digit (CHR ''/'')" by (simp add: is_digit_def less_eq_char_def)
  with 2 show ?case by (auto simp: Let_def split: if_splits)
qed simp

lemma ParseCIDR_two_slashes: "net_ParseCIDR (addr @ ''/32/32'') = None"
proof -
  let ?s = "addr @ ''/32/32''" let ?addr = "takeWhile (\<lambda>c. c \<noteq> CHR ''/'') ?s"
  have "CHR ''/'' \<in> set (drop (Suc (length ?addr)) ?s)"
  proof (cases "CHR ''/'' \<in> set addr")
    case True
    then obtain us vs where addr: "addr = us @ CHR ''/'' # vs" "CHR ''/'' \<notin> set us"
      by (auto dest: split_list_first)
    then have "takeWhile (\<lambda>c. c \<noteq> CHR ''/'') us = us" by (auto simp: takeWhile_eq_all_conv)
    then show ?thesis by (simp add: addr takeWhile_append takeWhile_eq_all_conv)
  next
    case False
    then have "takeWhile (\<lambda>c. c \<noteq> CHR ''/'') addr = addr" by (auto simp: takeWhile_eq_all_conv)
    then show ?thesis by (simp add: takeWhile_append takeWhile_eq_all_conv)
  qed
  then have "rest \<noteq> []" if "dtoi (drop (Suc (length ?addr)) ?s) = Some (n, rest)" for n rest
    using that dtoi_loop_slash by (auto simp: dtoi_def split: if_splits)
  then show ?thesis by (auto simp: net_ParseCIDR_def Let_def split: option.splits)
qed

section \<open>What the service promises\<close>

text \<open>
  The lease protocol relies on the service for one thing: a transaction compares and writes
  atomically. The contents of the database go through a history of views, which grows at every
  call, also by what other clients do meanwhile; a read returns an entry of some view of it, and a
  transaction that reports success made one step of it, from a view in which its compares hold.
\<close>

type_synonym 'v kv_view = "string \<Rightarrow> 'v kv_entry option"

fun compare_holds :: "'v kv_view \<Rightarrow> kv_compare \<Rightarrow> bool" where
  "compare_holds v (KeyAbsent key) = (v key = None)"
| "compare_holds v (KeyRevision key r) = (case v key of None \<Rightarrow> False | Some e \<Rightarrow> ke_ModRevision e = r)"

definition wrote :: "(string \<times> 'v) list \<Rightarrow> string list \<Rightarrow> 'v kv_view \<Rightarrow> 'v kv_view \<Rightarrow> bool" where
  "wrote puts deletes v w \<longleftrightarrow>
     (\<forall>key. case map_of puts key of
        Some x \<Rightarrow> (\<exists>e. w key = Some e \<and> ke_Value e = x)
      | None \<Rightarrow> w key = (if key \<in> set deletes then None else v key))"

definition stepped :: "'v kv_view list \<Rightarrow> 'v kv_view list \<Rightarrow> 'v kv_view \<Rightarrow> 'v kv_view \<Rightarrow> bool" where
  "stepped h h' v w \<longleftrightarrow> (\<exists>pre post. h' = pre @ v # w # post \<and> length h \<le> Suc (length pre))"

definition grows :: "'v kv_view list \<Rightarrow> 'v kv_view list \<Rightarrow> bool" where
  "grows h h' \<longleftrightarrow> (\<exists>new. h' = h @ new)"

definition kv_atomic :: "('k, 'b, 'v) kv_http \<Rightarrow> kv_client \<Rightarrow> string \<Rightarrow> ('k \<Rightarrow> 'v kv_view list) \<Rightarrow> bool" where
  "kv_atomic http c db hist \<longleftrightarrow>
     (\<forall>key k r k'. kv_get http c db key k = (r, k') \<longrightarrow>
        grows (hist k) (hist k') \<and> (\<forall>e. r = Inr e \<longrightarrow> (\<exists>v \<in> set (hist k'). v key = Some e))) \<and>
     (\<forall>compares puts deletes k r k'. txn_do http c db compares puts deletes k = (r, k') \<longrightarrow>
        grows (hist k) (hist k') \<and>
        (\<forall>out. r = Inr out \<and> kt_Succeeded out \<longrightarrow>
           (\<exists>v w. stepped (hist k) (hist k') v w \<and> list_all (compare_holds v) compares \<and> wrote puts deletes v w)))"

text \<open>No two entries of a key have the same modification revision.\<close>

definition revisions_unique :: "'v kv_view list \<Rightarrow> bool" where
  "revisions_unique h \<longleftrightarrow>
     (\<forall>v \<in> set h. \<forall>w \<in> set h. \<forall>key e f. v key = Some e \<and> w key = Some f \<and> ke_ModRevision e = ke_ModRevision f \<longrightarrow> e = f)"

definition live_entry :: "('k, 'b, 'v) kv_http \<Rightarrow> int \<Rightarrow> 'v kv_entry option \<Rightarrow> bool" where
  "live_entry http now x =
     (case x of None \<Rightarrow> False
      | Some e \<Rightarrow> (case json_Expiry http (ke_Value e) of None \<Rightarrow> False | Some t \<Rightarrow> t > now))"

lemma grows_refl [simp, intro]: "grows h h"
  by (simp add: grows_def)

lemma grows_trans [trans]: "grows h h' \<Longrightarrow> grows h' h'' \<Longrightarrow> grows h h''"
  by (auto simp: grows_def)

lemma grows_set: "grows h h' \<Longrightarrow> set h \<subseteq> set h'"
  by (auto simp: grows_def)

lemma grows_length: "grows h h' \<Longrightarrow> length h \<le> length h'"
  by (auto simp: grows_def)

lemma stepped_earlier: "stepped h' h'' v w \<Longrightarrow> grows h h' \<Longrightarrow> stepped h h'' v w"
  using grows_length by (fastforce simp: stepped_def)

lemma stepped_set: "stepped h h' v w \<Longrightarrow> v \<in> set h' \<and> w \<in> set h'"
  by (auto simp: stepped_def)

lemma kv_atomic_get:
  assumes "kv_atomic http c db hist" "kv_get http c db key k = (r, k')"
  shows "grows (hist k) (hist k')" "r = Inr e \<Longrightarrow> \<exists>v \<in> set (hist k'). v key = Some e"
  using conjunct1 [OF assms(1) [unfolded kv_atomic_def], rule_format, OF assms(2)] by simp_all

lemma kv_atomic_txn:
  assumes "kv_atomic http c db hist" "txn_do http c db compares puts deletes k = (r, k')"
  shows "grows (hist k) (hist k')"
    "r = Inr out \<Longrightarrow> kt_Succeeded out \<Longrightarrow>
     \<exists>v w. stepped (hist k) (hist k') v w \<and> list_all (compare_holds v) compares \<and> wrote puts deletes v w"
  using conjunct2 [OF assms(1) [unfolded kv_atomic_def], rule_format, OF assms(2)] by simp_all

lemma kv_txn_atomic:
  assumes "kv_atomic http c db hist" "kv_txn http c db compares puts k = (r, k')"
  shows "grows (hist k) (hist k')"
    "r = None \<Longrightarrow> \<exists>v w. stepped (hist k) (hist k') v w \<and> list_all (compare_holds v) compares \<and> wrote puts [] v w"
proof -
  obtain r1 where t: "txn_do http c db compares puts [] k = (r1, k')"
    and r: "r = (case r1 of Inl e \<Rightarrow> Some e | Inr out \<Rightarrow> if kt_Succeeded out then None else Some KvCompareFailed)"
    using assms(2) by (auto simp: kv_txn_def split: prod.splits sum.splits)
  show "grows (hist k) (hist k')" by (rule kv_atomic_txn(1) [OF assms(1) t])
  assume "r = None"
  with r obtain out where "r1 = Inr out" "kt_Succeeded out" by (auto split: sum.splits if_splits)
  then show "\<exists>v w. stepped (hist k) (hist k') v w \<and> list_all (compare_holds v) compares \<and> wrote puts [] v w"
    by (rule kv_atomic_txn(2) [OF assms(1) t])
qed

section \<open>What a lease was taken from\<close>

text \<open>A step of the database that gives an address to a node: nobody's lease on it was live before,
  its entry is the node's afterwards and no other key is touched.\<close>

definition granted ::
    "('k, 'b, 'v) kv_http \<Rightarrow> overlay_config \<Rightarrow> user_ref \<Rightarrow> int \<Rightarrow> u32 \<Rightarrow> 'v kv_view \<Rightarrow> 'v kv_view \<Rightarrow> bool" where
  "granted http cfg node now ip v w \<longleftrightarrow>
     \<not> live_entry http now (v (lease_key ip)) \<and>
     (\<exists>e. w (lease_key ip) = Some e \<and> ke_Value e = json_Lease http (lease_of node (format_ip ip) (now + ov_LeaseDuration cfg))) \<and>
     (\<forall>key. key \<noteq> lease_key ip \<longrightarrow> w key = v key)"

lemma lease_key_drop [simp]: "drop (length lease_prefix) (lease_key ip) = format_ip ip"
  by (simp add: lease_key_def)

lemma wrote_one: "wrote [(key, x)] [] v w \<longleftrightarrow> (\<exists>e. w key = Some e \<and> ke_Value e = x) \<and> (\<forall>key'. key' \<noteq> key \<longrightarrow> w key' = v key')"
  by (auto simp: wrote_def)

lemma acquire_turn_cases:
  assumes "acquire_turn http c cfg node now ip k = (turn, k2)"
  obtains (failed) err where "kv_get http c (ov_Database cfg) (lease_key ip) k = (Inl err, k2)" "turn = AcquireFailed err"
  | (live) e where "kv_get http c (ov_Database cfg) (lease_key ip) k = (Inr e, k2)" "turn = NextAddress"
  | (claim) entry k1 compare r where "kv_get http c (ov_Database cfg) (lease_key ip) k = (entry, k1)"
      "kv_txn http c (ov_Database cfg) [compare]
         [(lease_key ip, json_Lease http (lease_of node (format_ip ip) (now + ov_LeaseDuration cfg)))] k1 = (r, k2)"
      "turn = (if r = None then Taken \<lparr>le_Key = lease_key ip, le_Address = format_ip ip @ ''/32'', le_Revision = 0\<rparr> else NextAddress)"
      "compare = KeyAbsent (lease_key ip) \<or>
       (\<exists>e. entry = Inr e \<and> compare = KeyRevision (lease_key ip) (ke_ModRevision e) \<and> \<not> live_entry http now (Some e))"
proof -
  obtain entry k1 where g: "kv_get http c (ov_Database cfg) (lease_key ip) k = (entry, k1)" by fastforce
  let ?val = "json_Lease http (lease_of node (format_ip ip) (now + ov_LeaseDuration cfg))"
  let ?claim = "\<lambda>compare. kv_txn http c (ov_Database cfg) [compare] [(lease_key ip, ?val)] k1"
  let ?turn = "\<lambda>r. if r = None then Taken \<lparr>le_Key = lease_key ip, le_Address = format_ip ip @ ''/32'', le_Revision = 0\<rparr> else NextAddress"
  show ?thesis
  proof (cases entry)
    case (Inl err)
    show ?thesis
    proof (cases "err = KvNotFound")
      case True
      with assms g Inl have "turn = ?turn (fst (?claim (KeyAbsent (lease_key ip))))" "k2 = snd (?claim (KeyAbsent (lease_key ip)))"
        by (simp_all add: acquire_turn_def Let_def split_beta cong: if_cong)
      then show ?thesis by (intro claim [OF g, of "KeyAbsent (lease_key ip)"]) (simp_all add: prod_eq_iff)
    next
      case False
      with assms g Inl show ?thesis by (intro failed [of err]) (auto simp: acquire_turn_def Let_def)
    qed
  next
    case (Inr e)
    show ?thesis
    proof (cases "live_entry http now (Some e)")
      case True
      with assms g Inr show ?thesis
        by (intro live [of e]) (auto simp: acquire_turn_def live_entry_def Let_def split: option.splits)
    next
      case False
      let ?cmp = "KeyRevision (lease_key ip) (ke_ModRevision e)"
      from assms g Inr False have "turn = ?turn (fst (?claim ?cmp))" "k2 = snd (?claim ?cmp)"
        by (auto simp: acquire_turn_def live_entry_def Let_def split_beta split: option.splits cong: if_cong)
      with False Inr show ?thesis by (intro claim [OF g, of ?cmp]) (simp_all add: prod_eq_iff)
    qed
  qed
qed

lemma acquire_turn_grows:
  assumes "kv_atomic http c (ov_Database cfg) hist" "acquire_turn http c cfg node now ip k = (turn, k2)"
  shows "grows (hist k) (hist k2)"
  using assms(2)
proof (cases rule: acquire_turn_cases)
  case (claim entry k1 compare r)
  from kv_atomic_get(1) [OF assms(1) claim(1)] kv_txn_atomic(1) [OF assms(1) claim(2)]
  show ?thesis by (rule grows_trans)
qed (use kv_atomic_get(1) [OF assms(1)] in auto)

lemma acquire_turn_taken:
  assumes a: "kv_atomic http c (ov_Database cfg) hist" and t: "acquire_turn http c cfg node now ip k = (Taken lease, k2)"
    and u: "revisions_unique (hist k2)"
  shows "lease = \<lparr>le_Key = lease_key ip, le_Address = format_ip ip @ ''/32'', le_Revision = 0\<rparr> \<and>
    (\<exists>v w. stepped (hist k) (hist k2) v w \<and> granted http cfg node now ip v w)"
  using t
proof (cases rule: acquire_turn_cases)
  case (claim entry k1 compare r)
  then have r: "r = None" by (auto split: if_splits)
  have g: "grows (hist k) (hist k1)" "grows (hist k1) (hist k2)"
    by (rule kv_atomic_get(1) [OF a claim(1)], rule kv_txn_atomic(1) [OF a claim(2)])
  from kv_txn_atomic(2) [OF a claim(2) r] obtain v w where s: "stepped (hist k1) (hist k2) v w"
    and h: "compare_holds v compare"
    and w: "wrote [(lease_key ip, json_Lease http (lease_of node (format_ip ip) (now + ov_LeaseDuration cfg)))] [] v w"
    by auto
  from claim(4) have "\<not> live_entry http now (v (lease_key ip))"
  proof
    assume "compare = KeyAbsent (lease_key ip)"
    with h show ?thesis by (simp add: live_entry_def)
  next
    assume "\<exists>e. entry = Inr e \<and> compare = KeyRevision (lease_key ip) (ke_ModRevision e) \<and> \<not> live_entry http now (Some e)"
    then obtain e where e: "entry = Inr e" "compare = KeyRevision (lease_key ip) (ke_ModRevision e)"
      "\<not> live_entry http now (Some e)" by blast
    from kv_atomic_get(2) [OF a claim(1) e(1)] g(2) obtain x where x: "x \<in> set (hist k2)" "x (lease_key ip) = Some e"
      using grows_set by blast
    from h e(2) obtain f where f: "v (lease_key ip) = Some f" "ke_ModRevision f = ke_ModRevision e"
      by (auto split: option.splits)
    with u x stepped_set [OF s] have "f = e" unfolding revisions_unique_def by blast
    with e(3) f(1) show ?thesis by simp
  qed
  with w have "granted http cfg node now ip v w" by (auto simp: granted_def wrote_one)
  moreover have "stepped (hist k) (hist k2) v w" by (rule stepped_earlier [OF s g(1)])
  ultimately show ?thesis using claim(3) r by auto
qed auto

lemma acquire_loop_granted:
  assumes "last_ip + 1 \<noteq> 0" and a: "kv_atomic http c (ov_Database cfg) hist"
  shows "acquire_loop http c cfg node now ip last_ip k = Some (Inr lease, k') \<Longrightarrow> revisions_unique (hist k') \<Longrightarrow>
    \<exists>ip' v w. ip \<le> ip' \<and> ip' \<le> last_ip \<and>
      lease = \<lparr>le_Key = lease_key ip', le_Address = format_ip ip' @ ''/32'', le_Revision = 0\<rparr> \<and>
      stepped (hist k) (hist k') v w \<and> granted http cfg node now ip' v w"
proof (induction "unat last_ip + 1 - unat ip" arbitrary: ip k rule: less_induct)
  case less
  obtain turn k1 where t: "acquire_turn http c cfg node now ip k = (turn, k1)" by fastforce
  from less.prems(1) have le: "ip \<le> last_ip"
    by (subst (asm) acquire_loop.simps) (auto split: if_splits)
  show ?case
  proof (cases turn)
    case (Taken l)
    with t le less.prems(1) have "l = lease" "k1 = k'" by (subst (asm) acquire_loop.simps, auto)+
    with acquire_turn_taken [OF a] t Taken less.prems(2) le show ?thesis by blast
  next
    case NextAddress
    with t le less.prems(1) have n: "acquire_loop http c cfg node now (ip + 1) last_ip k1 = Some (Inr lease, k')"
      by (subst (asm) acquire_loop.simps) auto
    have up: "unat (ip + 1) = Suc (unat ip)" "unat ip \<le> unat last_ip"
      using pool_step [OF assms(1) le] le by (simp_all add: word_le_nat_alt)
    then have "unat last_ip + 1 - unat (ip + 1) < unat last_ip + 1 - unat ip" by simp
    from less.hyps [OF this n less.prems(2)] obtain ip' v w where r: "ip + 1 \<le> ip'" "ip' \<le> last_ip"
      "lease = \<lparr>le_Key = lease_key ip', le_Address = format_ip ip' @ ''/32'', le_Revision = 0\<rparr>"
      "stepped (hist k1) (hist k') v w" "granted http cfg node now ip' v w" by blast
    moreover have "ip \<le> ip'" using r(1) up by (simp add: word_le_nat_alt)
    moreover have "stepped (hist k) (hist k') v w"
      using r(4) acquire_turn_grows [OF a t] by (rule stepped_earlier)
    ultimately show ?thesis by blast
  next
    case (AcquireFailed e)
    with t le less.prems(1) show ?thesis by (subst (asm) acquire_loop.simps) auto
  qed
qed

text \<open>C8. A lease is taken atomically and never from somebody whose lease is live, whatever other clients
  do to the database in between: when acquiring succeeds for a node without a static address, one
  step of the database during the call wrote the node's lease under the key of an address of the
  pool, in a state in which that key held nothing, or a lease that had expired, and that step
  touched no other key. Assumed is that the service's transactions are atomic and that it never
  gives two entries of a key the same revision.\<close>

theorem acquire_takes_no_live_lease:
  assumes "kv_atomic http c (ov_Database cfg) hist" and "ov_StaticAddress cfg = ''''"
    and "acquire http c cfg node now k = Some (Inr lease, k')" and "revisions_unique (hist k')"
  shows "\<exists>start last_ip ip v w. parseIPv4 (ov_PoolStart cfg) = Inr start \<and> parseIPv4 (ov_PoolEnd cfg) = Inr last_ip \<and>
    start \<le> ip \<and> ip \<le> last_ip \<and> lease = \<lparr>le_Key = lease_key ip, le_Address = format_ip ip @ ''/32'', le_Revision = 0\<rparr> \<and>
    stepped (hist k) (hist k') v w \<and> granted http cfg node now ip v w"
proof -
  from assms(2,3) obtain start last_ip where p: "parseIPv4 (ov_PoolStart cfg) = Inr start" "parseIPv4 (ov_PoolEnd cfg) = Inr last_ip"
    "acquire_loop http c cfg node now start last_ip k = Some (Inr lease, k')"
    by (auto simp: acquire_def split: sum.splits)
  from acquire_loop_granted [OF parseIPv4_not_last [OF p(2)] assms(1) p(3) assms(4)] p(1,2) show ?thesis by blast
qed

section \<open>Escaping keys\<close>

lemma PathEscape_Cons: "PathEscape (c # s) =
    (if path_plain c then [c] else [CHR ''%'', hex_digit (of_char c div 16), hex_digit (of_char c mod 16)]) @ PathEscape s"
  by (simp add: PathEscape_def)

lemma hex_digit_inj: "m < 16 \<Longrightarrow> n < 16 \<Longrightarrow> hex_digit m = hex_digit n \<longleftrightarrow> m = n"
proof
  assume "m < 16" "n < 16" "hex_digit m = hex_digit n"
  then have "(of_char (hex_digit m) :: nat) = of_char (hex_digit n)" by simp
  with \<open>m < 16\<close> \<open>n < 16\<close> show "m = n" by (auto simp: hex_digit_def split: if_splits)
qed simp

lemma PathEscape_inj: "PathEscape s = PathEscape t \<longleftrightarrow> s = t"
proof
  show "PathEscape s = PathEscape t \<Longrightarrow> s = t"
  proof (induction s arbitrary: t)
    case Nil
    then show ?case by (cases t) (auto simp: PathEscape_def split: if_splits)
  next
    case (Cons c s)
    then obtain d t' where t: "t = d # t'" by (cases t) (auto simp: PathEscape_def split: if_splits)
    have percent: "\<not> path_plain (CHR ''%'')" by (simp add: path_plain_def)
    have "of_char c div 16 < (16::nat)" "of_char d div 16 < (16::nat)"
      using nat_of_char_less_256 [of c] nat_of_char_less_256 [of d] by linarith+
    then have "c = d" if "hex_digit (of_char c div 16) = hex_digit (of_char d div 16)"
        "hex_digit (of_char c mod 16) = hex_digit (of_char d mod 16)"
      using that by (simp add: hex_digit_inj) (metis div_mult_mod_eq of_char_eq_iff)
    with Cons percent show ?case by (auto simp: t PathEscape_Cons split: if_splits)
  qed
qed simp

section \<open>A service in memory\<close>

text \<open>
  A service that keeps every state of one database, to run the protocol on: it answers the
  requests of the client by their URLs, and keeps the promises above.
\<close>

type_synonym store = "(string \<times> lease_value kv_entry) list"
type_synonym mem = "store list \<times> store"

datatype mem_body = NoAnswer | EntryAnswer "lease_value kv_entry" | TxnAnswer kv_txn_response | ListAnswer "(string \<times> lease_value) list"

definition mem_views :: "mem \<Rightarrow> lease_value kv_view list" where
  "mem_views h = map map_of (fst h) @ [map_of (snd h)]"

definition mem_write :: "u64 \<Rightarrow> (string \<times> lease_value) list \<Rightarrow> string list \<Rightarrow> store \<Rightarrow> store" where
  "mem_write r puts deletes store =
     map (\<lambda>(key, x). (key, \<lparr>ke_Revision = r, ke_Value = x, ke_ModRevision = r\<rparr>)) puts @
     filter (\<lambda>(key, e). key \<notin> set deletes \<union> fst ` set puts) store"

definition mem_rev :: "mem \<Rightarrow> u64" where
  "mem_rev h = of_nat (length (fst h))"

definition mem_Do :: "string \<Rightarrow> lease_value kv_request \<Rightarrow> mem \<Rightarrow> (string + nat \<times> mem_body) \<times> mem" where
  "mem_Do prefix rq h =
     (if rq_URL rq = prefix @ ''/txn''
      then (case rq_Body rq of
              TxnBody compares puts deletes \<Rightarrow>
                if list_all (compare_holds (map_of (snd h))) compares
                then (Inr (200, TxnAnswer \<lparr>kt_Revision = mem_rev h, kt_Succeeded = True\<rparr>),
                      (fst h @ [snd h], mem_write (mem_rev h) puts deletes (snd h)))
                else (Inr (200, TxnAnswer \<lparr>kt_Revision = mem_rev h, kt_Succeeded = False\<rparr>), h)
            | _ \<Rightarrow> (Inr (400, NoAnswer), h))
      else if rq_URL rq = prefix @ ''/list?prefix=leases/by-ip/''
      then (Inr (200, ListAnswer (map (\<lambda>(key, e). (key, ke_Value e)) (snd h))), h)
      else case find (\<lambda>(key, e). rq_URL rq = prefix @ ''/keys/'' @ PathEscape key) (snd h) of
             None \<Rightarrow> (Inr (404, NoAnswer), h)
           | Some (key, e) \<Rightarrow> (Inr (200, EntryAnswer e), h))"

definition mem_http :: "kv_client \<Rightarrow> string \<Rightarrow> (mem, mem_body, lease_value) kv_http" where
  "mem_http c db = \<lparr>http_NewRequest = (\<lambda>_ _. None), http_Do = mem_Do (kc_base c @ ''/kv/'' @ PathEscape db),
     json_Entry = (\<lambda>b. case b of EntryAnswer e \<Rightarrow> Inr e | _ \<Rightarrow> Inl ''entry''),
     json_Txn = (\<lambda>b. case b of TxnAnswer t \<Rightarrow> Inr t | _ \<Rightarrow> Inl ''txn''),
     json_List = (\<lambda>b. case b of ListAnswer items \<Rightarrow> Inr items | _ \<Rightarrow> Inl ''list''),
     json_Token = (\<lambda>b. Inl ''token''), json_Lease = (\<lambda>v. v), json_Expiry = (\<lambda>v. Some (lv_ExpiresAt v)), json_Value = Some\<rparr>"

lemma find_map_of: "(case find (\<lambda>(k, e). k = key) store of None \<Rightarrow> None | Some (k, e) \<Rightarrow> Some e) = map_of store key"
  by (induction store) auto

lemma mem_get: "kv_get (mem_http c db) c db key h =
    (case map_of (snd h) key of None \<Rightarrow> (Inl KvNotFound, h) | Some e \<Rightarrow> (Inr e, h))"
proof -
  have "(\<lambda>(k, e). key = k) = (\<lambda>(k, e :: lease_value kv_entry). k = key)" by auto
  then show ?thesis
    unfolding find_map_of [symmetric]
    by (auto simp: kv_get_def kv_do_def decoded_def mem_http_def mem_Do_def key_path_def PathEscape_inj
        split: option.splits)
qed

lemma mem_txn: "txn_do (mem_http c db) c db compares puts deletes h =
    (if list_all (compare_holds (map_of (snd h))) compares
     then (Inr \<lparr>kt_Revision = mem_rev h, kt_Succeeded = True\<rparr>, (fst h @ [snd h], mem_write (mem_rev h) puts deletes (snd h)))
     else (Inr \<lparr>kt_Revision = mem_rev h, kt_Succeeded = False\<rparr>, h))"
  by (simp add: txn_do_def kv_do_def decoded_def mem_http_def mem_Do_def)

lemma mem_list: "listLeaseValues (mem_http c db) c db h = (Inr (map (\<lambda>(key, e). (key, ke_Value e)) (snd h)), h)"
  by (simp add: listLeaseValues_def kv_do_def decoded_def mem_http_def mem_Do_def)

lemma mem_grows: "grows (mem_views h) (mem_views (fst h @ [snd h], s))"
  by (simp add: grows_def mem_views_def)

lemma mem_stepped: "stepped (mem_views h) (mem_views (fst h @ [snd h], s)) (map_of (snd h)) (map_of s)"
  unfolding stepped_def by (rule exI [of _ "map map_of (fst h)"], rule exI [of _ "[]"]) (simp add: mem_views_def)

lemma map_of_puts: "map_of (map (\<lambda>(key, x). (key, f x)) puts) key = map_option f (map_of puts key)"
  by (induction puts) auto

lemma map_of_kept: "map_of (filter (\<lambda>(key, e). key \<notin> D) store) key = (if key \<in> D then None else map_of store key)"
  by (induction store) auto

lemma mem_wrote: "wrote puts deletes (map_of store) (map_of (mem_write r puts deletes store))"
  unfolding wrote_def
proof
  fix key
  show "case map_of puts key of
      Some x \<Rightarrow> (\<exists>e. map_of (mem_write r puts deletes store) key = Some e \<and> ke_Value e = x)
    | None \<Rightarrow> map_of (mem_write r puts deletes store) key = (if key \<in> set deletes then None else map_of store key)"
  proof (cases "map_of puts key")
    case None
    then have "key \<notin> fst ` set puts" by (simp add: map_of_eq_None_iff)
    with None map_of_kept [of "set deletes \<union> fst ` set puts" store key] show ?thesis
      by (simp add: mem_write_def map_add_def map_of_puts)
  qed (simp add: mem_write_def map_add_def map_of_puts)
qed

lemma mem_atomic: "kv_atomic (mem_http c db) c db mem_views"
  unfolding kv_atomic_def
proof (intro conjI allI impI)
  fix key k r k' e
  assume g: "kv_get (mem_http c db) c db key k = (r, k')"
  then have k': "k' = k" by (auto simp: mem_get split: option.splits)
  then show "grows (mem_views k) (mem_views k')" by simp
  assume "r = Inr e"
  with g have "map_of (snd k) key = Some e" by (auto simp: mem_get split: option.splits)
  with k' show "\<exists>v \<in> set (mem_views k'). v key = Some e" by (auto simp: mem_views_def)
next
  fix compares puts deletes k r k'
  assume t: "txn_do (mem_http c db) c db compares puts deletes k = (r, k')"
  then show "grows (mem_views k) (mem_views k')" by (auto simp: mem_txn mem_grows split: if_splits)
  fix out assume "r = Inr out \<and> kt_Succeeded out"
  with t have "list_all (compare_holds (map_of (snd k))) compares"
    "k' = (fst k @ [snd k], mem_write (mem_rev k) puts deletes (snd k))"
    by (auto simp: mem_txn split: if_splits)
  with mem_stepped mem_wrote
  show "\<exists>v w. stepped (mem_views k) (mem_views k') v w \<and> list_all (compare_holds v) compares \<and> wrote puts deletes v w"
    by blast
qed

text \<open>The operations on this service, with a pool of one address.\<close>

abbreviation pool_key :: string where
  "pool_key \<equiv> lease_key 0x0AFA0002"

definition mem_put :: "mem \<Rightarrow> string \<Rightarrow> lease_value \<Rightarrow> mem" where
  "mem_put h key v = (fst h @ [snd h], mem_write (mem_rev h) [(key, v)] [] (snd h))"

lemma mem_put_lookup [simp]:
  "map_of (snd (mem_put h key v)) key = Some \<lparr>ke_Revision = mem_rev h, ke_Value = v, ke_ModRevision = mem_rev h\<rparr>"
  "key' \<noteq> key \<Longrightarrow> map_of (snd (mem_put h key v)) key' = map_of (snd h) key'"
  by (simp_all add: mem_put_def mem_write_def map_of_kept [where D = "{key}", simplified])

lemma mem_json [simp]: "json_Lease (mem_http c db) v = v" "json_Value (mem_http c db) v = Some v"
  "json_Expiry (mem_http c db) v = Some (lv_ExpiresAt v)"
  by (simp_all add: mem_http_def)

lemma mem_acquire:
  "acquire (mem_http c ''overlay'') c (overlay_example d) node now h =
     Some (if live_entry (mem_http c ''overlay'') now (map_of (snd h) pool_key) then (Inl PoolExhausted, h)
           else (Inr \<lparr>le_Key = pool_key, le_Address = ''10.250.0.2/32'', le_Revision = 0\<rparr>,
                 mem_put h pool_key (lease_of node ''10.250.0.2'' (now + d))))"
proof -
  let ?http = "mem_http c ''overlay''"
  have past: "acquire_loop ?http c (overlay_example d) node now 0x0AFA0003 0x0AFA0002 k = Some (Inl PoolExhausted, k)" for k
    by (subst acquire_loop.simps) simp
  have d: "drop (length lease_prefix) pool_key = ''10.250.0.2''" by (simp add: format_example)
  have turn: "acquire_turn ?http c (overlay_example d) node now 0x0AFA0002 h =
     (if live_entry ?http now (map_of (snd h) pool_key) then (NextAddress, h)
      else (Taken \<lparr>le_Key = pool_key, le_Address = ''10.250.0.2/32'', le_Revision = 0\<rparr>,
            mem_put h pool_key (lease_of node ''10.250.0.2'' (now + d))))"
    unfolding acquire_turn_def Let_def d
    by (auto simp: overlay_example_def mem_get kv_txn_def mem_txn live_entry_def mem_put_def split: option.splits)
  have "acquire_loop ?http c (overlay_example d) node now 0x0AFA0002 0x0AFA0002 h =
     Some (if live_entry ?http now (map_of (snd h) pool_key) then (Inl PoolExhausted, h)
           else (Inr \<lparr>le_Key = pool_key, le_Address = ''10.250.0.2/32'', le_Revision = 0\<rparr>,
                 mem_put h pool_key (lease_of node ''10.250.0.2'' (now + d))))"
    by (subst acquire_loop.simps) (simp add: turn past)
  then show ?thesis by (simp add: acquire_def parse_example overlay_example_def)
qed

lemma mem_renew:
  "renew (mem_http c (ov_Database cfg)) c cfg lease node now h =
     (case map_of (snd h) (le_Key lease) of
        None \<Rightarrow> (Inl KvNotFound, h)
      | Some e \<Rightarrow> (Inr (lease\<lparr>le_Revision := mem_rev h\<rparr>),
                   mem_put h (le_Key lease) (lease_of node (le_Address lease) (now + ov_LeaseDuration cfg))))"
  by (auto simp: renew_def mem_get mem_txn mem_put_def Let_def split: option.splits)

definition example_client :: kv_client where
  "example_client = \<lparr>kc_base = ''http://kv'', kc_token = ''t''\<rparr>"

theorem acquire_takes_no_live_lease_witness:
  "\<exists>lease k' v w. acquire (mem_http example_client ''overlay'') example_client (overlay_example (10 * minute)) (UserRef 1 1) 0 ([], [])
      = Some (Inr lease, k') \<and>
     stepped (mem_views ([], [])) (mem_views k') v w \<and>
     granted (mem_http example_client ''overlay'') (overlay_example (10 * minute)) (UserRef 1 1) 0 0x0AFA0002 v w"
proof -
  let ?http = "mem_http example_client ''overlay''" and ?cfg = "overlay_example (10 * minute)"
  let ?lease = "\<lparr>le_Key = pool_key, le_Address = ''10.250.0.2/32'', le_Revision = 0\<rparr>"
  let ?v = "lease_of (UserRef 1 1) ''10.250.0.2'' (0 + 10 * minute)"
  let ?k = "mem_put ([], []) pool_key ?v"
  have acq: "acquire ?http example_client ?cfg (UserRef 1 1) 0 ([], []) = Some (Inr ?lease, ?k)"
    by (simp add: mem_acquire live_entry_def)
  have "mem_views ?k = [Map.empty, [pool_key \<mapsto> \<lparr>ke_Revision = 0, ke_Value = ?v, ke_ModRevision = 0\<rparr>]]"
    by (simp add: mem_views_def mem_put_def mem_write_def mem_rev_def)
  then have "revisions_unique (mem_views ?k)" by (auto simp: revisions_unique_def split: if_splits)
  moreover have "kv_atomic ?http example_client (ov_Database ?cfg) mem_views" "ov_StaticAddress ?cfg = ''''"
    using mem_atomic by (simp_all add: overlay_example_def)
  moreover have "parseIPv4 (ov_PoolStart ?cfg) = Inr 0x0AFA0002" "parseIPv4 (ov_PoolEnd ?cfg) = Inr 0x0AFA0002"
    by (simp_all add: overlay_example_def parse_example)
  ultimately obtain v w where "stepped (mem_views ([], [])) (mem_views ?k) v w"
    "granted ?http ?cfg (UserRef 1 1) 0 0x0AFA0002 v w"
    using acquire_takes_no_live_lease [OF _ _ acq] by fastforce
  with acq show ?thesis by blast
qed

section \<open>Renewing\<close>

lemma newRouteTable_fails:
  assumes "p \<in> set peers" "raw \<in> set (peer_Routes p)" "net_ParseCIDR raw = None"
  shows "\<exists>e. newRouteTable peers = Inl e"
proof (cases "newRouteTable peers")
  case (Inr t)
  then show ?thesis using assms by (force simp: newRouteTable_Inr list_all_iff)
qed auto

text \<open>A peer made from a lease whose address already carries a prefix length.\<close>

lemma masked_lease_fails:
  assumes "lease_peer v \<in> set peers" "lv_Address v = addr @ ''/32''"
  shows "\<exists>e. newRouteTable peers = Inl e"
  using assms(1)
proof (rule newRouteTable_fails)
  show "addr @ ''/32/32'' \<in> set (peer_Routes (lease_peer v))" by (simp add: lease_peer_def assms(2))
qed (rule ParseCIDR_two_slashes)

lemma mem_discover:
  "discoverOverlayPeers (mem_http c (ov_Database cfg)) c cfg self [] now (past, [(key, e)]) =
     (Inr (if usable_lease self now (ke_Value e) then [lease_peer (ke_Value e)] else []), (past, [(key, e)]))"
  by (simp add: discoverOverlayPeers_def mem_list)

text \<open>The address of a lease that is taken has a prefix length, and no renewal changes it.\<close>

lemma acquire_turn_address:
  "acquire_turn http c cfg node now ip k = (Taken lease, k') \<Longrightarrow> \<exists>plain. le_Address lease = plain @ ''/32''"
  by (erule acquire_turn_cases) (auto split: if_splits)

lemma acquire_loop_address:
  assumes "acquire_loop http c cfg node now ip last_ip k = Some r"
  shows "\<forall>lease. fst r = Inr lease \<longrightarrow> (\<exists>plain. le_Address lease = plain @ ''/32'')"
proof (rule acquire_loop.raw_induct [where P = "\<lambda>http c cfg node now ip last_ip k r.
    \<forall>lease. fst r = Inr lease \<longrightarrow> (\<exists>plain. le_Address lease = plain @ ''/32'')", OF _ assms])
  fix loop http c cfg node now ip last_ip k r
  assume "\<And>http c cfg node now ip last_ip k r. loop http c cfg node now ip last_ip k = Some r \<Longrightarrow>
      \<forall>lease. fst r = Inr lease \<longrightarrow> (\<exists>plain. le_Address lease = plain @ ''/32'')"
    and "(if ip \<le> last_ip
      then (case acquire_turn http c cfg node now ip k of
              (Taken lease, k) \<Rightarrow> Some (Inr lease, k)
            | (NextAddress, k) \<Rightarrow> loop http c cfg node now (ip + 1) last_ip k
            | (AcquireFailed e, k) \<Rightarrow> Some (Inl e, k))
      else Some (Inl PoolExhausted, k)) = Some r"
  then show "\<forall>lease. fst r = Inr lease \<longrightarrow> (\<exists>plain. le_Address lease = plain @ ''/32'')"
    by (auto split: if_splits prod.splits pool_turn.splits dest: acquire_turn_address)
qed

lemma acquire_address:
  "acquire http c cfg node now k = Some (Inr lease, k') \<Longrightarrow> \<exists>plain. le_Address lease = plain @ ''/32''"
  using acquire_loop_address [where r = "(Inr lease, k')", simplified] by (fastforce simp: acquire_def split: if_splits sum.splits)

lemma renew_keeps: "renew http c cfg lease node now k = (Inr lease', k') \<Longrightarrow> le_Address lease' = le_Address lease \<and> le_Key lease' = le_Key lease"
  by (auto simp: renew_def Let_def split: prod.splits sum.splits if_splits)

lemma renewals_keep:
  "renewOverlayLease http c cfg node ticks lease k = (lease', k') \<Longrightarrow> le_Address lease' = le_Address lease \<and> le_Key lease' = le_Key lease"
proof (induction ticks arbitrary: lease k)
  case (Cons now ticks)
  obtain r k1 where r: "renew http c cfg lease node now k = (r, k1)" by fastforce
  with Cons show ?case by (cases r) (auto dest: renew_keeps)
qed simp

text \<open>What a renewal that succeeds has read and done.\<close>

lemma renew_steps:
  assumes "kv_atomic http c (ov_Database cfg) hist" "renew http c cfg lease node now k = (Inr lease', k')"
  obtains v w where "stepped (hist k) (hist k') v w"
    "wrote [(le_Key lease, json_Lease http (lease_of node (le_Address lease) (now + ov_LeaseDuration cfg)))] [] v w"
proof -
  let ?val = "json_Lease http (lease_of node (le_Address lease) (now + ov_LeaseDuration cfg))"
  obtain e k1 out where g: "kv_get http c (ov_Database cfg) (le_Key lease) k = (Inr e, k1)"
    and t: "txn_do http c (ov_Database cfg) [KeyRevision (le_Key lease) (ke_ModRevision e)] [(le_Key lease, ?val)] [] k1 = (Inr out, k')"
    and s: "kt_Succeeded out"
    using assms(2) by (auto simp: renew_def Let_def split: prod.splits sum.splits if_splits)
  from kv_atomic_txn(2) [OF assms(1) t refl s] obtain v w where "stepped (hist k1) (hist k') v w" "wrote [(le_Key lease, ?val)] [] v w"
    by blast
  with kv_atomic_get(1) [OF assms(1) g] show ?thesis by (blast intro: that stepped_earlier)
qed

text \<open>A listed lease that is the only one of its user makes a peer.\<close>

lemma discovered:
  assumes d: "discoverOverlayPeers http c cfg self existing now k = (Inr peers, k')"
    and l: "listLeaseValues http c (ov_Database cfg) k = (Inr items, k')"
    and x: "x \<in> snd ` set items" "json_Value http x = Some v" "usable_lease self now v" "lease_user v \<notin> peer_ref ` set existing"
    and only: "\<And>y u. y \<in> snd ` set items \<Longrightarrow> json_Value http y = Some u \<Longrightarrow> lease_user u = lease_user v \<Longrightarrow> u = v"
  shows "lease_peer v \<in> set peers"
proof -
  let ?live = "usable_leases (json_Value http) self now (map snd items)"
  from d l have peers: "peers = existing @ map lease_peer (fresh_leases (set (map peer_ref existing)) ?live)"
    by (auto elim!: discover_Inr)
  have "v \<in> set ?live" using x by (auto simp: usable_leases_set)
  then have "lease_user v \<in> lease_user ` set (fresh_leases (set (map peer_ref existing)) ?live)"
    using fresh_leases_users [of "set (map peer_ref existing)" ?live] x(4) by auto
  then obtain u where u: "u \<in> set (fresh_leases (set (map peer_ref existing)) ?live)" "lease_user u = lease_user v" by auto
  then have "u \<in> set ?live" using fresh_leases_set by blast
  with u(2) only have "u = v" by (auto simp: usable_leases_set)
  with u(1) show ?thesis by (auto simp: peers)
qed

lemma lease_user_of [simp]: "lease_user (lease_of node address expires) = node"
  by (cases node) (simp add: lease_user_def lease_of_def)

text \<open>C30. Acquiring stores the plain address under the key, and the lease the node holds has the prefix
  length behind it. Renewing stores the address of the held lease, so from the first renewal that
  succeeds on, whatever number of renewals came before it, the service has an address with a prefix
  length, and the route that discovery makes of it has two: any node that finds this lease, as the
  only one of its holder and not expired, cannot build its route table. Assumed is that the service's
  transactions are atomic and that the stored value decodes to what was encoded.\<close>

theorem renewed_lease_breaks_route_table:
  assumes "kv_atomic http c (ov_Database cfg) hist"
    and taken: "acquire http c cfg node t k = Some (Inr lease, k1)"
    and held: "renewOverlayLease http c cfg node ticks lease k2 = (held, k3)"
    and renewed: "renew http c cfg held node now k4 = (Inr lease', k5)"
    and stored: "stored = lease_of node (le_Address held) (now + ov_LeaseDuration cfg)" "json_Value http (json_Lease http stored) = Some stored"
    and found: "discoverOverlayPeers http c' cfg' self existing later k6 = (Inr peers, k7)"
    and items: "listLeaseValues http c' (ov_Database cfg') k6 = (Inr items, k7)" "(le_Key held, json_Lease http stored) \<in> set items"
    and usable: "usable_lease self later stored" "node \<notin> peer_ref ` set existing"
    and only: "\<And>y u. y \<in> snd ` set items \<Longrightarrow> json_Value http y = Some u \<Longrightarrow> lease_user u = node \<Longrightarrow> u = stored"
  shows "(\<exists>v w e. stepped (hist k4) (hist k5) v w \<and> w (le_Key held) = Some e \<and> ke_Value e = json_Lease http stored) \<and>
    (\<exists>p plain. p \<in> set peers \<and> peer_ref p = node \<and> peer_Routes p = [plain @ ''/32/32'']) \<and>
    (\<exists>e. newRouteTable peers = Inl e)"
proof -
  obtain v w where "stepped (hist k4) (hist k5) v w" "wrote [(le_Key held, json_Lease http stored)] [] v w"
    using renew_steps [OF assms(1) renewed] stored(1) by metis
  then have step: "\<exists>v w e. stepped (hist k4) (hist k5) v w \<and> w (le_Key held) = Some e \<and> ke_Value e = json_Lease http stored"
    by (auto simp: wrote_one)
  from acquire_address [OF taken] renewals_keep [OF held] obtain plain where plain: "lv_Address stored = plain @ ''/32''"
    by (auto simp: stored(1) lease_of_def)
  have user: "lease_user stored = node" by (simp add: stored(1))
  have "json_Lease http stored \<in> snd ` set items" using items(2) by force
  from discovered [OF found items(1) this stored(2) usable(1)] only usable(2) have p: "lease_peer stored \<in> set peers"
    by (simp add: user)
  then have "lease_peer stored \<in> set peers \<and> peer_ref (lease_peer stored) = node \<and> peer_Routes (lease_peer stored) = [plain @ ''/32/32'']"
    by (simp add: user plain) (simp add: lease_peer_def plain)
  with step masked_lease_fails [OF p plain] show ?thesis by blast
qed

theorem renewed_lease_breaks_route_table_witness:
  "let http = mem_http example_client ''overlay''; cfg = overlay_example (10 * minute); one = UserRef 1 1; two = UserRef 2 2
   in \<exists>lease k1 lease2 k2 peers e.
     acquire http example_client cfg one 0 ([], []) = Some (Inr lease, k1) \<and>
     renew http example_client cfg lease one (200 * second) k1 = (Inr lease2, k2) \<and>
     discoverOverlayPeers http example_client cfg two [] (201 * second) k2 = (Inr peers, k2) \<and>
     newRouteTable peers = Inl e"
proof -
  let ?http = "mem_http example_client ''overlay''" and ?cfg = "overlay_example (10 * minute)"
  let ?lease = "\<lparr>le_Key = pool_key, le_Address = ''10.250.0.2/32'', le_Revision = 0\<rparr>"
  let ?v = "lease_of (UserRef 1 1) ''10.250.0.2'' (0 + 10 * minute)"
  let ?w = "lease_of (UserRef 1 1) ''10.250.0.2/32'' (200 * second + 10 * minute)"
  let ?one = "mem_put ([], []) pool_key ?v" let ?two = "mem_put ?one pool_key ?w"
  have db: "ov_Database ?cfg = ''overlay''" "ov_LeaseDuration ?cfg = 10 * minute" by (simp_all add: overlay_example_def)
  have acq: "acquire ?http example_client ?cfg (UserRef 1 1) 0 ([], []) = Some (Inr ?lease, ?one)"
    by (simp add: mem_acquire live_entry_def)
  have atomic: "kv_atomic ?http example_client (ov_Database ?cfg) mem_views" by (simp add: db mem_atomic)
  have ren: "renew ?http example_client ?cfg ?lease (UserRef 1 1) (200 * second) ?one =
      (Inr (?lease\<lparr>le_Revision := mem_rev ?one\<rparr>), ?two)"
    using mem_renew [of example_client ?cfg ?lease "UserRef 1 1" "200 * second" ?one] by (simp add: db)
  obtain f q where two: "?two = (q, [(pool_key, f)])" "ke_Value f = ?w"
    by (simp add: mem_put_def mem_write_def)
  have w: "usable_lease (UserRef 2 2) (201 * second) ?w"
    by (simp add: usable_lease_def lease_of_def rfc3339_def minute_def second_def)
  then have d: "discoverOverlayPeers ?http example_client ?cfg (UserRef 2 2) [] (201 * second) ?two = (Inr [lease_peer ?w], ?two)"
    unfolding two(1) using mem_discover [of example_client ?cfg "UserRef 2 2" "201 * second" q pool_key f, unfolded db two(2)] by simp
  have l: "listLeaseValues ?http example_client (ov_Database ?cfg) ?two = (Inr [(pool_key, ?w)], ?two)"
    unfolding two(1) db by (simp add: mem_list two(2))
  have "\<exists>e. newRouteTable [lease_peer ?w] = Inl e"
    using renewed_lease_breaks_route_table [OF atomic acq _ ren _ _ d l _ w, where ticks = "[]" and ?k3.0 = ?one] by (simp add: db)
  with acq ren d show ?thesis unfolding Let_def by blast
qed

text \<open>C31. Renewing checks that the entry did not change since it was read, not that it is the node's
  own. Whenever a node reads a live lease of another one under the key of the lease it thinks it
  holds, for instance because its own expired and was taken over, and the service grants the
  comparison with the revision of that very entry, the renewal succeeds: one step of the database
  replaces the other's live lease by the node's, and the node goes on with the address that the other
  one uses. Assumed is that the service's transactions are atomic, that it never gives two entries of
  a key the same revision and that the stored value decodes to what was encoded.\<close>

theorem renew_overwrites_foreign_lease:
  assumes "kv_atomic http c (ov_Database cfg) hist"
    and read: "kv_get http c (ov_Database cfg) (le_Key lease) k = (Inr e, k1)"
    and foreign: "json_Value http (ke_Value e) = Some theirs" "lease_user theirs \<noteq> node" "live_entry http now (Some e)"
    and mine: "mine = lease_of node (le_Address lease) (now + ov_LeaseDuration cfg)" "json_Value http (json_Lease http mine) = Some mine"
    and granted: "txn_do http c (ov_Database cfg) [KeyRevision (le_Key lease) (ke_ModRevision e)]
       [(le_Key lease, json_Lease http mine)] [] k1 = (Inr out, k2)" "kt_Succeeded out"
    and unique: "revisions_unique (hist k2)"
  shows "renew http c cfg lease node now k = (Inr (lease\<lparr>le_Revision := kt_Revision out\<rparr>), k2) \<and>
    (\<exists>v w f owner. stepped (hist k) (hist k2) v w \<and> live_entry http now (v (le_Key lease)) \<and>
       map_option (\<lambda>x. map_option lease_user (json_Value http (ke_Value x))) (v (le_Key lease)) = Some (Some owner) \<and>
       owner \<noteq> node \<and> w (le_Key lease) = Some f \<and> map_option lease_user (json_Value http (ke_Value f)) = Some node)"
proof -
  have renew: "renew http c cfg lease node now k = (Inr (lease\<lparr>le_Revision := kt_Revision out\<rparr>), k2)"
    using read granted by (simp add: renew_def mine(1))
  from kv_atomic_txn(2) [OF assms(1) granted(1) refl granted(2)] obtain v w where s: "stepped (hist k1) (hist k2) v w"
    and h: "compare_holds v (KeyRevision (le_Key lease) (ke_ModRevision e))" and w: "wrote [(le_Key lease, json_Lease http mine)] [] v w"
    by auto
  from kv_atomic_get(2) [OF assms(1) read refl] kv_atomic_txn(1) [OF assms(1) granted(1)] obtain x
    where x: "x \<in> set (hist k2)" "x (le_Key lease) = Some e" using grows_set by blast
  from h obtain g where "v (le_Key lease) = Some g" "ke_ModRevision g = ke_ModRevision e" by (auto split: option.splits)
  with unique x stepped_set [OF s] have v: "v (le_Key lease) = Some e" unfolding revisions_unique_def by blast
  from w obtain f where f: "w (le_Key lease) = Some f" "ke_Value f = json_Lease http mine" by (auto simp: wrote_one)
  have "stepped (hist k) (hist k2) v w" by (rule stepped_earlier [OF s kv_atomic_get(1) [OF assms(1) read]])
  then have "stepped (hist k) (hist k2) v w \<and> live_entry http now (v (le_Key lease)) \<and>
      map_option (\<lambda>x. map_option lease_user (json_Value http (ke_Value x))) (v (le_Key lease)) = Some (Some (lease_user theirs)) \<and>
      lease_user theirs \<noteq> node \<and> w (le_Key lease) = Some f \<and> map_option lease_user (json_Value http (ke_Value f)) = Some node"
    using v f foreign mine by simp
  with renew show ?thesis by blast
qed

theorem renew_overwrites_foreign_lease_witness:
  "let http = mem_http example_client ''overlay''; cfg = overlay_example (10 * minute); one = UserRef 1 1; two = UserRef 2 2
   in \<exists>lease1 k1 lease2 k2 lease3 k3.
     acquire http example_client cfg one 0 ([], []) = Some (Inr lease1, k1) \<and>
     acquire http example_client cfg two (11 * minute) k1 = Some (Inr lease2, k2) \<and>
     live_entry http (12 * minute) (map_of (snd k2) (le_Key lease2)) \<and>
     renew http example_client cfg lease1 one (12 * minute) k2 = (Inr lease3, k3) \<and>
     le_Key lease3 = le_Key lease2 \<and> le_Address lease3 = le_Address lease2 \<and>
     map_option (\<lambda>e. lease_user (ke_Value e)) (map_of (snd k3) (le_Key lease2)) = Some one"
proof -
  let ?http = "mem_http example_client ''overlay''" and ?cfg = "overlay_example (10 * minute)"
  let ?lease = "\<lparr>le_Key = pool_key, le_Address = ''10.250.0.2/32'', le_Revision = 0\<rparr>"
  let ?v1 = "lease_of (UserRef 1 1) ''10.250.0.2'' (0 + 10 * minute)"
  let ?v2 = "lease_of (UserRef 2 2) ''10.250.0.2'' (11 * minute + 10 * minute)"
  let ?v3 = "lease_of (UserRef 1 1) ''10.250.0.2/32'' (12 * minute + 10 * minute)"
  let ?one = "mem_put ([], []) pool_key ?v1" let ?two = "mem_put ?one pool_key ?v2" let ?three = "mem_put ?two pool_key ?v3"
  have db: "ov_Database ?cfg = ''overlay''" "ov_LeaseDuration ?cfg = 10 * minute" by (simp_all add: overlay_example_def)
  have expiry: "lv_ExpiresAt (lease_of n a (m * minute + 10 * minute)) = m * minute + 10 * minute"
    "lv_ExpiresAt (lease_of n a (0 + 10 * minute)) = 10 * minute" for n a m
    by (simp_all add: lease_of_def rfc3339_def minute_def second_def)
  have a1: "acquire ?http example_client ?cfg (UserRef 1 1) 0 ([], []) = Some (Inr ?lease, ?one)"
    by (simp add: mem_acquire live_entry_def)
  have a2: "acquire ?http example_client ?cfg (UserRef 2 2) (11 * minute) ?one = Some (Inr ?lease, ?two)"
    by (simp only: mem_acquire live_entry_def mem_put_lookup mem_json expiry option.case kv_entry.simps)
       (simp add: minute_def second_def)
  let ?e = "\<lparr>ke_Revision = mem_rev ?one, ke_Value = ?v2, ke_ModRevision = mem_rev ?one\<rparr>"
  have live: "live_entry ?http (12 * minute) (Some ?e)"
    by (simp only: live_entry_def mem_json expiry option.case kv_entry.simps) (simp add: minute_def second_def)
  have g: "kv_get ?http example_client (ov_Database ?cfg) (le_Key ?lease) ?two = (Inr ?e, ?two)"
    unfolding db by (simp add: mem_get)
  have t: "txn_do ?http example_client (ov_Database ?cfg) [KeyRevision (le_Key ?lease) (ke_ModRevision ?e)]
      [(le_Key ?lease, json_Lease ?http ?v3)] [] ?two = (Inr \<lparr>kt_Revision = mem_rev ?two, kt_Succeeded = True\<rparr>, ?three)"
    unfolding db by (simp add: mem_txn) (simp add: mem_put_def)
  have atomic: "kv_atomic ?http example_client (ov_Database ?cfg) mem_views" by (simp add: db mem_atomic)
  have "mem_views ?three = [Map.empty, [pool_key \<mapsto> \<lparr>ke_Revision = 0, ke_Value = ?v1, ke_ModRevision = 0\<rparr>],
      [pool_key \<mapsto> \<lparr>ke_Revision = 1, ke_Value = ?v2, ke_ModRevision = 1\<rparr>], [pool_key \<mapsto> \<lparr>ke_Revision = 2, ke_Value = ?v3, ke_ModRevision = 2\<rparr>]]"
    by (simp add: mem_views_def mem_put_def mem_write_def mem_rev_def)
  then have u: "revisions_unique (mem_views ?three)" by (auto simp: revisions_unique_def split: if_splits)
  obtain http cfg lease e two three out v3 where abs: "http = ?http" "cfg = ?cfg" "lease = ?lease" "e = ?e" "two = ?two"
    "three = ?three" "out = \<lparr>kt_Revision = mem_rev ?two, kt_Succeeded = True\<rparr>" "v3 = ?v3" by simp
  have j: "json_Value http (ke_Value e) = Some ?v2" "lease_user ?v2 \<noteq> UserRef 1 1" "json_Value http (json_Lease http v3) = Some v3"
    "kt_Succeeded out" "v3 = lease_of (UserRef 1 1) (le_Address lease) (12 * minute + ov_LeaseDuration cfg)"
    unfolding abs by (simp, simp, simp, simp, simp only: db overlay_lease.simps)
  have r: "renew ?http example_client ?cfg ?lease (UserRef 1 1) (12 * minute) ?two = (Inr (?lease\<lparr>le_Revision := mem_rev ?two\<rparr>), ?three)"
    using renew_overwrites_foreign_lease [OF atomic [folded abs] g [folded abs] j(1,2) live [folded abs] j(5,3)
        t [folded abs] j(4) u [folded abs]] unfolding abs by simp
  show ?thesis unfolding Let_def
    by (rule exI [of _ ?lease], rule exI [of _ ?one], rule exI [of _ ?lease], rule exI [of _ ?two],
        rule exI [of _ "?lease\<lparr>le_Revision := mem_rev ?two\<rparr>"], rule exI [of _ ?three], intro conjI,
        rule a1, rule a2, use live in simp, rule r) simp_all
qed

theorem discovery_adds_each_leaseholder_once_witness:
  "let v = lease_of (UserRef 1 1) ''10.250.0.2'' (10 * minute); h = mem_put ([], []) pool_key v
   in discoverOverlayPeers (mem_http example_client ''overlay'') example_client (overlay_example (10 * minute)) (UserRef 2 2) [] second h
        = (Inr [lease_peer v], h) \<and>
      set (map peer_ref [lease_peer v]) = lease_user ` {w. w = v \<and> usable_lease (UserRef 2 2) second w}"
proof -
  let ?http = "mem_http example_client ''overlay''" and ?cfg = "overlay_example (10 * minute)"
  let ?v = "lease_of (UserRef 1 1) ''10.250.0.2'' (10 * minute)" let ?h = "mem_put ([], []) pool_key ?v"
  have db: "ov_Database ?cfg = ''overlay''" by (simp add: overlay_example_def)
  obtain e where h: "?h = ([[]], [(pool_key, e)])" "ke_Value e = ?v"
    by (simp add: mem_put_def mem_write_def)
  have u: "usable_lease (UserRef 2 2) second ?v"
    by (simp add: usable_lease_def lease_of_def rfc3339_def minute_def second_def)
  then have d: "discoverOverlayPeers ?http example_client ?cfg (UserRef 2 2) [] second ?h = (Inr [lease_peer ?v], ?h)"
    unfolding h(1) using mem_discover [of example_client ?cfg "UserRef 2 2" second "[[]]" pool_key e, unfolded db h(2)] by simp
  have l: "listLeaseValues ?http example_client (ov_Database ?cfg) ?h = (Inr [(pool_key, ?v)], ?h)"
    unfolding h(1) db by (simp add: mem_list h(2))
  have "set (map peer_ref [lease_peer ?v]) = lease_user ` {w. w = ?v \<and> usable_lease (UserRef 2 2) second w}"
    using discovery_adds_each_leaseholder_once [OF d] by (simp add: l Let_def del: peer_ref_lease_peer)
  with d show ?thesis unfolding Let_def by blast
qed

end
