(* ===== verification/Device.thy ===== *)
theory Device
  imports Route "HOL-Library.Multiset"
begin

text \<open>
  internal/tun/device.go: the TUN interface with its reused read buffer, and its set-up through the
  kernel's link, address and route calls. The interface library and netlink are parameters over a
  state \<open>'o\<close> of the operating system; a call gives its error, if any, and the next state.
\<close>

section \<open>What is not ours\<close>

datatype os_error = OsError string | OsExists

text \<open>The scopes of netlink, and what the code fills in of a route; \<open>kr_Link\<close> is the link whose index it names.\<close>

datatype route_scope = SCOPE_UNIVERSE | SCOPE_SITE | SCOPE_LINK | SCOPE_HOST | SCOPE_NOWHERE

record 'a kernel_route =
  kr_Link :: 'a
  kr_Dst :: ipnet
  kr_Scope :: route_scope
  kr_Congctl :: string

record ('o, 'i, 'l, 'a) net_os =
  os_Geteuid :: "'o \<Rightarrow> int"
  water_New :: "string \<Rightarrow> 'o \<Rightarrow> (string + 'i) \<times> 'o"
  ifce_Name :: "'i \<Rightarrow> string"
  ifce_Read :: "'i \<Rightarrow> nat \<Rightarrow> 'o \<Rightarrow> (string + bytes) \<times> 'o"
  ifce_Write :: "'i \<Rightarrow> bytes \<Rightarrow> 'o \<Rightarrow> string option \<times> 'o"
  ifce_Close :: "'i \<Rightarrow> 'o \<Rightarrow> string option \<times> 'o"
  LinkByName :: "string \<Rightarrow> 'o \<Rightarrow> (string + 'l) \<times> 'o"
  LinkSetMTU :: "'l \<Rightarrow> int \<Rightarrow> 'o \<Rightarrow> string option \<times> 'o"
  LinkSetTxQLen :: "'l \<Rightarrow> int \<Rightarrow> 'o \<Rightarrow> string option \<times> 'o"
  ParseAddr :: "string \<Rightarrow> string + 'a"
  AddrAdd :: "'l \<Rightarrow> 'a \<Rightarrow> 'o \<Rightarrow> os_error option \<times> 'o"
  LinkSetUp :: "'l \<Rightarrow> 'o \<Rightarrow> string option \<times> 'o"
  RouteReplace :: "'l kernel_route \<Rightarrow> 'o \<Rightarrow> string option \<times> 'o"

section \<open>Setting up the link\<close>

datatype device_error =
    NotRoot | CreateTun string | FindLink string string | SetMTU string | SetTxQueue string
  | ParseAddress string string | AddAddress string os_error | BringUpFailed string
  | ParseRoute string | InstallRoute string string

text \<open>The loop over the addresses; one that is there already is no error.\<close>

fun add_addresses ::
    "('o, 'i, 'l, 'a) net_os \<Rightarrow> 'l \<Rightarrow> string list \<Rightarrow> 'o \<Rightarrow> device_error option \<times> 'o" where
  "add_addresses os link [] k = (None, k)"
| "add_addresses os link (raw # raws) k =
     (case ParseAddr os raw of
        Inl e \<Rightarrow> (Some (ParseAddress raw e), k)
      | Inr addr \<Rightarrow>
          (case AddrAdd os link addr k of
             (Some e, k) \<Rightarrow> if e \<noteq> OsExists then (Some (AddAddress raw e), k) else add_addresses os link raws k
           | (None, k) \<Rightarrow> add_addresses os link raws k))"

definition configureTUN ::
    "('o, 'i, 'l, 'a) net_os \<Rightarrow> string \<Rightarrow> tun_config \<Rightarrow> 'o \<Rightarrow> device_error option \<times> 'o" where
  "configureTUN os name cfg k =
     (case LinkByName os name k of
        (Inl e, k) \<Rightarrow> (Some (FindLink name e), k)
      | (Inr link, k) \<Rightarrow>
          (case (if tun_MTU cfg > 0 then LinkSetMTU os link (tun_MTU cfg) k else (None, k)) of
             (Some e, k) \<Rightarrow> (Some (SetMTU e), k)
           | (None, k) \<Rightarrow>
               (case (if tun_TxQueueLength cfg > 0 then LinkSetTxQLen os link (tun_TxQueueLength cfg) k else (None, k)) of
                  (Some e, k) \<Rightarrow> (Some (SetTxQueue e), k)
                | (None, k) \<Rightarrow>
                    (case add_addresses os link (tun_Addresses cfg) k of
                       (Some e, k) \<Rightarrow> (Some e, k)
                     | (None, k) \<Rightarrow>
                         if tun_BringUp cfg
                         then (case LinkSetUp os link k of (Some e, k) \<Rightarrow> (Some (BringUpFailed e), k) | (None, k) \<Rightarrow> (None, k))
                         else (None, k)))))"

text \<open>The two loops of \<open>configureTUNRoutes\<close>.\<close>

fun install_routes ::
    "('o, 'i, 'l, 'a) net_os \<Rightarrow> 'l \<Rightarrow> string \<Rightarrow> string list \<Rightarrow> 'o \<Rightarrow> device_error option \<times> 'o" where
  "install_routes os link congestion [] k = (None, k)"
| "install_routes os link congestion (raw # raws) k =
     (case net_ParseCIDR raw of
        None \<Rightarrow> (Some (ParseRoute raw), k)
      | Some (_, dst) \<Rightarrow>
          (case RouteReplace os \<lparr>kr_Link = link, kr_Dst = dst, kr_Scope = SCOPE_LINK, kr_Congctl = congestion\<rparr> k of
             (Some e, k) \<Rightarrow> (Some (InstallRoute raw e), k)
           | (None, k) \<Rightarrow> install_routes os link congestion raws k))"

fun install_peers ::
    "('o, 'i, 'l, 'a) net_os \<Rightarrow> 'l \<Rightarrow> string \<Rightarrow> peer_config list \<Rightarrow> 'o \<Rightarrow> device_error option \<times> 'o" where
  "install_peers os link congestion [] k = (None, k)"
| "install_peers os link congestion (p # ps) k =
     (case install_routes os link congestion (peer_Routes p) k of
        (Some e, k) \<Rightarrow> (Some e, k)
      | (None, k) \<Rightarrow> install_peers os link congestion ps k)"

definition configureTUNRoutes ::
    "('o, 'i, 'l, 'a) net_os \<Rightarrow> string \<Rightarrow> peer_config list \<Rightarrow> string \<Rightarrow> 'o \<Rightarrow> device_error option \<times> 'o" where
  "configureTUNRoutes os name peers congestion k =
     (case LinkByName os name k of
        (Inl e, k) \<Rightarrow> (Some (FindLink name e), k)
      | (Inr link, k) \<Rightarrow> install_peers os link congestion peers k)"

section \<open>The device\<close>

record 'i tun_device =
  td_ifce :: 'i
  td_maxPacketBytes :: nat
  td_readBuf :: bytes

definition device_Close :: "('o, 'i, 'l, 'a) net_os \<Rightarrow> 'i tun_device \<Rightarrow> 'o \<Rightarrow> string option \<times> 'o" where
  "device_Close os d k = ifce_Close os (td_ifce d) k"

definition device_Name :: "('o, 'i, 'l, 'a) net_os \<Rightarrow> 'i tun_device \<Rightarrow> string" where
  "device_Name os d = ifce_Name os (td_ifce d)"

definition OpenTUN ::
    "('o, 'i, 'l, 'a) net_os \<Rightarrow> tun_config \<Rightarrow> nat \<Rightarrow> 'o \<Rightarrow> (device_error + 'i tun_device) \<times> 'o" where
  "OpenTUN os cfg maxPacketBytes k =
     (if os_Geteuid os k \<noteq> 0 then (Inl NotRoot, k)
      else case water_New os (tun_Name cfg) k of
        (Inl e, k) \<Rightarrow> (Inl (CreateTun e), k)
      | (Inr ifce, k) \<Rightarrow>
          (let d = \<lparr>td_ifce = ifce, td_maxPacketBytes = maxPacketBytes, td_readBuf = []\<rparr>
           in case configureTUN os (ifce_Name os ifce) cfg k of
                (Some e, k) \<Rightarrow> (Inl e, snd (device_Close os d k))
              | (None, k) \<Rightarrow> (Inr d, k)))"

text \<open>The interface writes what it read over the front of the buffer it is given.\<close>

definition ReadPacket ::
    "('o, 'i, 'l, 'a) net_os \<Rightarrow> string option \<Rightarrow> 'i tun_device \<Rightarrow> 'o \<Rightarrow> (string + bytes) \<times> 'i tun_device \<times> 'o" where
  "ReadPacket os ctxErr d k =
     (case ctxErr of
        Some e \<Rightarrow> (Inl e, d, k)
      | None \<Rightarrow>
          (let buf = td_readBuf d;
               (buf, d) = (if length buf \<noteq> td_maxPacketBytes d
                           then (let buf = replicate (td_maxPacketBytes d) 0 in (buf, d\<lparr>td_readBuf := buf\<rparr>))
                           else (buf, d))
           in case ifce_Read os (td_ifce d) (length buf) k of
                (Inl e, k) \<Rightarrow> (Inl e, d, k)
              | (Inr packet, k) \<Rightarrow>
                  (let n = length packet; buf = packet @ drop n buf
                   in (Inr (take n buf), d\<lparr>td_readBuf := buf\<rparr>, k))))"

definition device_WritePacket :: "('o, 'i, 'l, 'a) net_os \<Rightarrow> 'i tun_device \<Rightarrow> bytes \<Rightarrow> 'o \<Rightarrow> string option \<times> 'o" where
  "device_WritePacket os d packet k = ifce_Write os (td_ifce d) packet k"

section \<open>The kernel's routes and the route table\<close>

text \<open>The calls that install the routes \<open>rs\<close>, one after the other.\<close>

definition replace_all :: "('o, 'i, 'l, 'a) net_os \<Rightarrow> 'l \<Rightarrow> string \<Rightarrow> route list \<Rightarrow> 'o \<Rightarrow> 'o" where
  "replace_all os link congestion rs k =
     fold (\<lambda>r k. snd (RouteReplace os \<lparr>kr_Link = link, kr_Dst = rt_prefix r, kr_Scope = SCOPE_LINK, kr_Congctl = congestion\<rparr> k)) rs k"

lemma replace_all_simps [simp]:
  "replace_all os link congestion [] k = k"
  "replace_all os link congestion (rs @ rs') k = replace_all os link congestion rs' (replace_all os link congestion rs k)"
  by (simp_all add: replace_all_def)

lemma install_routes_ok:
  assumes "install_routes os link congestion raws k = (None, k')"
  shows "list_all (\<lambda>raw. net_ParseCIDR raw \<noteq> None) raws \<and>
    k' = replace_all os link congestion (map (\<lambda>raw. \<lparr>rt_prefix = snd (the (net_ParseCIDR raw)), rt_peer = p\<rparr>) raws) k"
  using assms
  by (induction raws arbitrary: k) (auto simp: replace_all_def split: option.splits prod.splits)

lemma install_peers_ok:
  assumes "install_peers os link congestion ps k = (None, k')"
  shows "list_all (\<lambda>p. list_all (\<lambda>raw. net_ParseCIDR raw \<noteq> None) (peer_Routes p)) ps \<and>
    k' = replace_all os link congestion (configured_routes ps) k"
  using assms
proof (induction ps arbitrary: k)
  case (Cons p ps)
  then obtain k1 where 1: "install_routes os link congestion (peer_Routes p) k = (None, k1)"
    "install_peers os link congestion ps k1 = (None, k')"
    by (auto split: prod.splits option.splits)
  from install_routes_ok [OF 1(1), of p] Cons.IH [OF 1(2)] show ?case by (simp add: configured_routes_def)
qed (simp add: configured_routes_def)

text \<open>C26. When the routes of the TUN interface are set up without an error, the kernel sends it exactly
  the prefixes the route table knows: one call per route of the configuration, in its order, on the
  link's scope and with the configured congestion control, and the table that is looked up for each packet is a
  rearrangement of those routes.\<close>

theorem kernel_routes_match_table:
  assumes "configureTUNRoutes os name peers congestion k = (None, k')"
  shows "\<exists>link k1 t. LinkByName os name k = (Inr link, k1) \<and> newRouteTable peers = Inr t \<and>
    mset t = mset (configured_routes peers) \<and> k' = replace_all os link congestion (configured_routes peers) k1"
proof -
  from assms obtain link k1 where l: "LinkByName os name k = (Inr link, k1)"
    and i: "install_peers os link congestion peers k1 = (None, k')"
    by (auto simp: configureTUNRoutes_def split: prod.splits sum.splits)
  note ok = install_peers_ok [OF i]
  then have "newRouteTable peers = Inr (sort_routes (configured_routes peers))" by (simp add: newRouteTable_Inr)
  moreover have "mset (sort_routes (configured_routes peers)) = mset (configured_routes peers)"
    by (simp add: sort_routes_def)
  ultimately show ?thesis using l ok by blast
qed

section \<open>Reading packets\<close>

text \<open>A packet is what the interface gave, whatever an earlier packet left in the buffer, and the buffer
  keeps the configured size.\<close>

lemma ReadPacket_fresh:
  assumes "ifce_Read os (td_ifce d) (td_maxPacketBytes d) k = (Inr packet, k')" "length packet \<le> td_maxPacketBytes d"
  shows "\<exists>d'. ReadPacket os None d k = (Inr packet, d', k') \<and> length (td_readBuf d') = td_maxPacketBytes d \<and>
    td_maxPacketBytes d' = td_maxPacketBytes d \<and> td_ifce d' = td_ifce d"
  using assms by (cases "length (td_readBuf d) = td_maxPacketBytes d") (simp_all add: ReadPacket_def Let_def)

section \<open>An operating system for concrete runs\<close>

text \<open>One that never fails and keeps the routes it was given.\<close>

definition listing_os :: "(unit kernel_route list, unit, unit, unit) net_os" where
  "listing_os = \<lparr>os_Geteuid = (\<lambda>_. 0), water_New = (\<lambda>_ k. (Inr (), k)), ifce_Name = (\<lambda>_. ''turntf0''),
     ifce_Read = (\<lambda>_ _ k. (Inr [], k)), ifce_Write = (\<lambda>_ _ k. (None, k)), ifce_Close = (\<lambda>_ k. (None, k)),
     LinkByName = (\<lambda>_ k. (Inr (), k)), LinkSetMTU = (\<lambda>_ _ k. (None, k)), LinkSetTxQLen = (\<lambda>_ _ k. (None, k)),
     ParseAddr = (\<lambda>_. Inr ()), AddrAdd = (\<lambda>_ _ k. (Some OsExists, k)), LinkSetUp = (\<lambda>_ k. (None, k)),
     RouteReplace = (\<lambda>r k. (None, k @ [r]))\<rparr>"

theorem kernel_routes_match_table_witness:
  "\<exists>k' t. configureTUNRoutes listing_os ''turntf0'' [peer_with ''b'' 2 [''10.250.0.2/32''], peer_with ''net'' 3 [''10.0.0.0/8'']] ''bbr'' [] = (None, k') \<and>
     map kr_Dst k' = [\<lparr>netIP = [10, 250, 0, 2], netMask = [255, 255, 255, 255]\<rparr>, \<lparr>netIP = [10, 0, 0, 0], netMask = [255, 0, 0, 0]\<rparr>] \<and>
     newRouteTable [peer_with ''b'' 2 [''10.250.0.2/32''], peer_with ''net'' 3 [''10.0.0.0/8'']] = Inr t \<and> size (mset t) = 2"
proof -
  let ?ps = "[peer_with ''b'' 2 [''10.250.0.2/32''], peer_with ''net'' 3 [''10.0.0.0/8'']]"
  have raws: "peer_Routes (peer_with n i raws) = raws" for n i raws by (simp add: peer_with_def)
  have c: "\<exists>k'. configureTUNRoutes listing_os ''turntf0'' ?ps ''bbr'' [] = (None, k') \<and>
      map kr_Dst k' = [\<lparr>netIP = [10, 250, 0, 2], netMask = [255, 255, 255, 255]\<rparr>, \<lparr>netIP = [10, 0, 0, 0], netMask = [255, 0, 0, 0]\<rparr>]"
    by (simp add: configureTUNRoutes_def listing_os_def raws parse_host parse_examples)
  then obtain k' where k': "configureTUNRoutes listing_os ''turntf0'' ?ps ''bbr'' [] = (None, k') \<and>
      map kr_Dst k' = [\<lparr>netIP = [10, 250, 0, 2], netMask = [255, 255, 255, 255]\<rparr>, \<lparr>netIP = [10, 0, 0, 0], netMask = [255, 0, 0, 0]\<rparr>]" ..
  have two: "size (mset (configured_routes ?ps)) = 2" by (simp add: configured_routes_def raws)
  obtain t where t: "newRouteTable ?ps = Inr t" "mset t = mset (configured_routes ?ps)"
    using kernel_routes_match_table [OF conjunct1 [OF k']] by (elim exE conjE)
  show ?thesis
    by (rule exI [of _ k'], rule exI [of _ t], intro conjI, rule conjunct1 [OF k'], rule conjunct2 [OF k'], rule t(1))
       (simp only: t(2) two)
qed

end
