(* ===== verification/Startup.thy ===== *)
theory Startup
  imports Lifecycle Lease Device
begin

text \<open>
  How the parts are put together: \<open>Run\<close>, \<open>NewRuntime\<close>, \<open>Runtime.Run\<close>, \<open>runPeer\<close> and the dial loop of
  internal/tun/runtime.go, and the command line of cmd/turntf-tun/main.go. What these functions do
  is recorded as a list of effects, in the order of the code; the key-value service and the
  operating system are the states of \<open>Lease\<close> and \<open>Device\<close>. Serving, that is everything that
  happens until the context ends, is one effect here and the machine of \<open>Runtime\<close> and
  \<open>Lifecycle\<close> there.
\<close>

section \<open>The dial loop\<close>

datatype dial_pc = DTop | DConnect | DHeld nat | DSleep | DReturned

text \<open>\<open>dl_dialled\<close> records the ports the loop has registered.\<close>

record dial_loop =
  dl_relay :: relay_state
  dl_pc :: dial_pc
  dl_ctxDone :: bool
  dl_dialled :: "nat list"

datatype dial_event = EvDialGo | EvDialled "string + string" | EvPortDone | EvDialSlept | EvDialCtx

fun dialLoop :: "nat \<Rightarrow> peer_config \<Rightarrow> dial_event \<Rightarrow> dial_loop \<Rightarrow> dial_loop" where
  "dialLoop n peer ev s =
     (case (dl_pc s, ev) of
        (DTop, EvDialGo) \<Rightarrow> s\<lparr>dl_pc := if dl_ctxDone s then DReturned else DConnect\<rparr>
      | (DConnect, EvDialled (Inl err)) \<Rightarrow> s\<lparr>dl_pc := DSleep\<rparr>
      | (DConnect, EvDialled (Inr relayID)) \<Rightarrow>
          (let (r, pid) = registerPort n peer relayID (dl_relay s)
           in s\<lparr>dl_relay := r, dl_pc := DHeld pid, dl_dialled := dl_dialled s @ [pid]\<rparr>)
      | (DHeld pid, EvPortDone) \<Rightarrow>
          (if pp_done (the (rl_heap (dl_relay s) pid)) then s\<lparr>dl_pc := DSleep\<rparr> else s)
      | (DSleep, EvDialSlept) \<Rightarrow> s\<lparr>dl_pc := DTop\<rparr>
      | (DSleep, EvDialCtx) \<Rightarrow> (if dl_ctxDone s then s\<lparr>dl_pc := DReturned\<rparr> else s)
      | _ \<Rightarrow> s)"

section \<open>What a peer gets\<close>

datatype peer_task = StreamTask peer_config | DialTask peer_config | NoTask

definition runPeer :: "config \<Rightarrow> user_ref \<Rightarrow> peer_config \<Rightarrow> peer_task" where
  "runPeer cfg localUser peer =
     (if effectiveTransportMode peer (tr_Mode (cfg_Transport cfg)) = ''stream'' then StreamTask peer
      else if shouldDial localUser (peer_ref peer) (peer_DialPolicy peer) then DialTask peer
      else NoTask)"

section \<open>NewRuntime and Runtime.Run\<close>

datatype run_error =
    RunConfig config_error | RunClient string | RunConnect string | RunNoLogin | RunKV kv_error
  | RunRoutes route_error | RunDevice device_error

datatype run_effect =
    FxIncomingConfig int | FxOnConnection | FxConnect | FxSpawnRenew overlay_lease | FxSpawnRead
  | FxSpawnPeer peer_task | FxServe | FxCloseDevice | FxClosePorts | FxWait | FxCloseClient
  | FxRelease overlay_lease

text \<open>The window that \<open>NewRuntime\<close> puts into the relay configuration, or its error.\<close>

definition NewRuntime ::
    "'pw password_sdk \<Rightarrow> (turntf_config \<Rightarrow> 'pw credentials \<Rightarrow> string option) \<Rightarrow> config \<Rightarrow> run_error + int" where
  "NewRuntime sdk newClient cfg =
     (case Credentials_ToTurntf sdk (Credentials (cfg_Turntf cfg)) of
        Inl e \<Rightarrow> Inl (RunConfig e)
      | Inr credentials \<Rightarrow>
          (case newClient (cfg_Turntf cfg) credentials of
             Some e \<Rightarrow> Inl (RunClient e)
           | None \<Rightarrow> Inr (tr_RelayWindowSize (cfg_Transport cfg))))"

definition Runtime_Run ::
    "bool \<Rightarrow> string option \<Rightarrow> user_ref option \<Rightarrow> int \<Rightarrow> config \<Rightarrow> run_error option \<times> run_effect list" where
  "Runtime_Run connected connect login relayWindow cfg =
     (let fx = [FxIncomingConfig relayWindow, FxOnConnection];
          fx = (if connected then fx else fx @ [FxConnect])
      in if \<not> connected \<and> connect \<noteq> None then (Some (RunConnect (the connect)), fx @ [FxCloseClient])
         else case login of
           None \<Rightarrow> (Some RunNoLogin, fx @ [FxCloseClient])
         | Some localUser \<Rightarrow>
             (None, fx @ FxSpawnRead # map (\<lambda>p. FxSpawnPeer (runPeer cfg localUser p)) (cfg_Peers cfg) @
                [FxServe, FxCloseDevice, FxClosePorts, FxWait, FxCloseClient]))"

section \<open>Run\<close>

text \<open>What the program is run with; \<open>ap_CurrentLogin n\<close> is the answer to the call of \<open>CurrentLogin\<close> behind \<open>n\<close>
  others: \<open>Run\<close> makes the first one and \<open>Runtime.Run\<close> the second, and the login may be lost in
  between.\<close>

record ('k, 'b, 'v, 'o, 'i, 'l, 'a, 'pw) app =
  ap_sdk :: "'pw password_sdk"
  ap_NewClient :: "turntf_config \<Rightarrow> 'pw credentials \<Rightarrow> string option"
  ap_Connect :: "string option"
  ap_CurrentLogin :: "nat \<Rightarrow> user_ref option"
  ap_http :: "('k, 'b, 'v) kv_http"
  ap_acquireTime :: int
  ap_discoverTime :: int
  ap_os :: "('o, 'i, 'l, 'a) net_os"

record ('k, 'o) host =
  h_kv :: 'k
  h_os :: 'o
  h_effects :: "run_effect list"

abbreviation did :: "run_effect list \<Rightarrow> ('k, 'o) host \<Rightarrow> ('k, 'o) host" where
  "did fx h \<equiv> h\<lparr>h_effects := h_effects h @ fx\<rparr>"

text \<open>The branch of the overlay: the client it made, the lease and the configuration with its address
  and the discovered peers; None is an \<open>acquire\<close> that does not return.\<close>

definition run_overlay ::
    "('k, 'b, 'v, 'o, 'i, 'l, 'a, 'pw) app \<Rightarrow> config \<Rightarrow> user_ref \<Rightarrow> ('k, 'o) host \<Rightarrow>
     ((run_error + (kv_client \<times> overlay_lease) option \<times> config) \<times> ('k, 'o) host) option" where
  "run_overlay app cfg login h =
     (if \<not> ov_Enabled (cfg_Overlay cfg) then Some (Inr (None, cfg), h)
      else case kv_login (ap_http app) (Credentials (cfg_Turntf cfg)) (newKVHTTPClient (cfg_Turntf cfg)) (h_kv h) of
        (Inl e, k) \<Rightarrow> Some (Inl (RunKV e), h\<lparr>h_kv := k\<rparr>)
      | (Inr client, k) \<Rightarrow>
          (case acquire (ap_http app) client (cfg_Overlay cfg) login (ap_acquireTime app) k of
             None \<Rightarrow> None
           | Some (Inl e, k) \<Rightarrow> Some (Inl (RunKV e), h\<lparr>h_kv := k\<rparr>)
           | Some (Inr lease, k) \<Rightarrow>
               (let cfg = cfg\<lparr>cfg_Tun := (cfg_Tun cfg)\<lparr>tun_Addresses := [le_Address lease]\<rparr>\<rparr>;
                    h = did [FxSpawnRenew lease] (h\<lparr>h_kv := k\<rparr>)
                in case discoverOverlayPeers (ap_http app) client (cfg_Overlay cfg) login (cfg_Peers cfg) (ap_discoverTime app) k of
                     (Inl e, k) \<Rightarrow> Some (Inl (RunKV e), h\<lparr>h_kv := k\<rparr>)
                   | (Inr peers, k) \<Rightarrow> Some (Inr (Some (client, lease), cfg\<lparr>cfg_Peers := peers\<rparr>), h\<lparr>h_kv := k\<rparr>))))"

text \<open>From \<open>newRouteTable\<close> on.\<close>

definition run_device ::
    "('k, 'b, 'v, 'o, 'i, 'l, 'a, 'pw) app \<Rightarrow> int \<Rightarrow> (kv_client \<times> overlay_lease) option \<Rightarrow> config \<Rightarrow> ('k, 'o) host \<Rightarrow>
     run_error option \<times> ('k, 'o) host" where
  "run_device app relayWindow lease cfg h =
     (case newRouteTable (cfg_Peers cfg) of
        Inl e \<Rightarrow> (Some (RunRoutes e), h)
      | Inr routes \<Rightarrow>
          (case OpenTUN (ap_os app) (cfg_Tun cfg) (nat (tr_MaxPacketBytes (cfg_Transport cfg))) (h_os h) of
             (Inl e, k) \<Rightarrow> (Some (RunDevice e), h\<lparr>h_os := k\<rparr>)
           | (Inr device, k) \<Rightarrow>
               (case configureTUNRoutes (ap_os app) (device_Name (ap_os app) device) (cfg_Peers cfg)
                       (tun_RouteCongestionControl (cfg_Tun cfg)) k of
                  (Some e, k) \<Rightarrow>
                    (Some (RunDevice e), did [FxCloseDevice] (h\<lparr>h_os := snd (device_Close (ap_os app) device k)\<rparr>))
                | (None, k) \<Rightarrow>
                    (let (err, fx) = Runtime_Run True (ap_Connect app) (ap_CurrentLogin app 1) relayWindow cfg;
                         h = did fx (h\<lparr>h_os := if err = None then snd (device_Close (ap_os app) device k) else k\<rparr>);
                         h = (case lease of
                                None \<Rightarrow> h
                              | Some (client, l) \<Rightarrow>
                                  did [FxRelease l] (h\<lparr>h_kv := snd (releaseLease (ap_http app) client (ov_Database (cfg_Overlay cfg)) l (h_kv h))\<rparr>))
                     in (err, did [FxCloseDevice] (h\<lparr>h_os := snd (device_Close (ap_os app) device (h_os h))\<rparr>))))))"

definition Run ::
    "('k, 'b, 'v, 'o, 'i, 'l, 'a, 'pw) app \<Rightarrow> config \<Rightarrow> ('k, 'o) host \<Rightarrow> (run_error option \<times> ('k, 'o) host) option" where
  "Run app cfg h =
     (let cfg = ApplyDefaults (ap_sdk app) cfg
      in case Validate (ap_sdk app) cfg of
           Some e \<Rightarrow> Some (Some (RunConfig e), h)
         | None \<Rightarrow>
             (case NewRuntime (ap_sdk app) (ap_NewClient app) cfg of
                Inl e \<Rightarrow> Some (Some e, h)
              | Inr relayWindow \<Rightarrow>
                  (let h = did [FxConnect] h
                   in case ap_Connect app of
                        Some e \<Rightarrow> Some (Some (RunConnect e), h)
                      | None \<Rightarrow>
                          (case ap_CurrentLogin app 0 of
                             None \<Rightarrow> Some (Some RunNoLogin, h)
                           | Some login \<Rightarrow>
                               (case run_overlay app cfg login h of
                                  None \<Rightarrow> None
                                | Some (Inl e, h) \<Rightarrow> Some (Some e, h)
                                | Some (Inr (lease, cfg), h) \<Rightarrow> Some (run_device app relayWindow lease cfg h))))))"

section \<open>The command line\<close>

datatype main_error = MissingCommand | FlagError string | MainLoad load_error | MainRun run_error | UnknownCommand string

datatype main_output = UsageToStderr | UsageToStdout | ConfigOk | PrintExample | Ran config

text \<open>\<open>parse\<close> is the flag set on the arguments behind the command and gives the configuration path,
  \<open>load\<close> is \<open>LoadConfig\<close> and \<open>start\<close> what \<open>Run\<close> returns.\<close>

definition main_run ::
    "(string list \<Rightarrow> string + string) \<Rightarrow> (string \<Rightarrow> load_error + config) \<Rightarrow> (config \<Rightarrow> run_error option) \<Rightarrow>
     string list \<Rightarrow> main_error option \<times> main_output list" where
  "main_run parse load start args =
     (case args of
        [] \<Rightarrow> (Some MissingCommand, [UsageToStderr])
      | command # rest \<Rightarrow>
          (case parse rest of
             Inl e \<Rightarrow> (Some (FlagError e), [])
           | Inr path \<Rightarrow>
               if command = ''run''
               then (case load path of
                       Inl e \<Rightarrow> (Some (MainLoad e), [])
                     | Inr cfg \<Rightarrow> (map_option MainRun (start cfg), [Ran cfg]))
               else if command = ''check-config''
               then (case load path of Inl e \<Rightarrow> (Some (MainLoad e), []) | Inr _ \<Rightarrow> (None, [ConfigOk]))
               else if command = ''example-config'' then (None, [PrintExample])
               else if command \<in> {''help'', ''-h'', ''--help''} then (None, [UsageToStdout])
               else (Some (UnknownCommand command), [UsageToStderr])))"

section \<open>Starting and stopping\<close>

lemma Runtime_Run_connected:
  "Runtime_Run True connect login w cfg =
     (case login of
        None \<Rightarrow> (Some RunNoLogin, [FxIncomingConfig w, FxOnConnection, FxCloseClient])
      | Some u \<Rightarrow> (None, [FxIncomingConfig w, FxOnConnection, FxSpawnRead] @
          map (\<lambda>p. FxSpawnPeer (runPeer cfg u p)) (cfg_Peers cfg) @ [FxServe, FxCloseDevice, FxClosePorts, FxWait, FxCloseClient]))"
  by (simp add: Runtime_Run_def Let_def split: option.split)

text \<open>The runtime has been entered: the first thing \<open>Runtime.Run\<close> does.\<close>

definition entered :: "run_effect list \<Rightarrow> bool" where
  "entered fx \<longleftrightarrow> (\<exists>w. FxIncomingConfig w \<in> set fx)"

lemma entered_simps [simp]:
  "\<not> entered []" "entered (x # fx) = ((\<exists>w. x = FxIncomingConfig w) \<or> entered fx)"
  "entered (fx @ fx') = (entered fx \<or> entered fx')" "\<not> entered (map (\<lambda>p. FxSpawnPeer (f p)) ps)"
  by (auto simp: entered_def)

text \<open>What the effects \<open>fx\<close> say about the leases: taken are \<open>ls\<close>, and they are given back iff the runtime
  has been entered.\<close>

definition lease_account :: "run_error option \<Rightarrow> overlay_lease set \<Rightarrow> run_effect list \<Rightarrow> bool" where
  "lease_account err ls fx \<longleftrightarrow>
     (FxServe \<in> set fx) = (err = None) \<and> {l. FxRelease l \<in> set fx} = (if entered fx then ls else {}) \<and>
     (entered fx \<and> FxServe \<notin> set fx) = (entered fx \<and> err = Some RunNoLogin) \<and>
     {l. FxSpawnRenew l \<in> set fx} = {}"

lemma run_device_account:
  assumes "run_device app w lease cfg h = (err, h')"
  shows "\<exists>fx. h_effects h' = h_effects h @ fx \<and> lease_account err (set_option (map_option snd lease)) fx"
  using assms
  by (auto simp: run_device_def Runtime_Run_connected lease_account_def Let_def
      split: sum.splits prod.splits option.splits split del: if_split)

lemma run_overlay_returns:
  "\<exists>r h'. run_overlay app cfg login h = Some (r, h') \<and>
    (\<exists>fx. h_effects h' = h_effects h @ fx \<and> FxServe \<notin> set fx \<and> \<not> entered fx \<and> {l. FxRelease l \<in> set fx} = {} \<and>
       (\<forall>lease cfg'. r = Inr (lease, cfg') \<longrightarrow> {l. FxSpawnRenew l \<in> set fx} = set_option (map_option snd lease)))"
proof -
  have a: "acquire (ap_http app) client (cfg_Overlay cfg) login (ap_acquireTime app) k0 \<noteq> None" for client k0
    by (rule acquire_not_None)
  show ?thesis
    by (auto simp: run_overlay_def entered_def Let_def a split: sum.splits prod.splits option.splits)
qed

text \<open>C27. Starting the program always comes to an end or to serving, whatever the services answer; the
  panic of \<open>login\<close> counts as an end with the error \<open>KvPanic\<close>. It serves exactly when it ends without an
  error. The lease it took is given back exactly when the runtime
  was entered, which then serves or has lost the login: when anything between the lease and the
  runtime fails, the discovery, the route table, the TUN device or its routes, the address stays
  taken until it expires.\<close>

theorem lease_released_iff_entered:
  "\<exists>err h' fx. Run app cfg h = Some (err, h') \<and> h_effects h' = h_effects h @ fx \<and>
     (FxServe \<in> set fx) = (err = None) \<and>
     {l. FxRelease l \<in> set fx} = (if entered fx then {l. FxSpawnRenew l \<in> set fx} else {}) \<and>
     (entered fx \<and> FxServe \<notin> set fx) = (entered fx \<and> err = Some RunNoLogin)"
proof -
  let ?cfg = "ApplyDefaults (ap_sdk app) cfg" and ?h = "did [FxConnect] h"
  show ?thesis
  proof (cases "Validate (ap_sdk app) ?cfg")
    case None
    note valid = this
    show ?thesis
    proof (cases "NewRuntime (ap_sdk app) (ap_NewClient app) ?cfg")
      case (Inr w)
      note new = this
      show ?thesis
      proof (cases "ap_Connect app = None \<and> ap_CurrentLogin app 0 \<noteq> None")
        case True
        then obtain u where up: "ap_Connect app = None" "ap_CurrentLogin app 0 = Some u" by blast
        obtain r h1 fx where o: "run_overlay app ?cfg u ?h = Some (r, h1)" "h_effects h1 = h_effects ?h @ fx"
          "FxServe \<notin> set fx" "\<not> entered fx" "{l. FxRelease l \<in> set fx} = {}"
          "\<forall>lease cfg'. r = Inr (lease, cfg') \<longrightarrow> {l. FxSpawnRenew l \<in> set fx} = set_option (map_option snd lease)"
          using run_overlay_returns [of app ?cfg u ?h] by blast
        note run = Run_def [of app cfg h, unfolded Let_def valid new up option.case sum.case o(1) prod.case]
        show ?thesis
        proof (cases r)
          case (Inl e)
          with run have "Run app cfg h = Some (Some e, h1)" by simp
          with o show ?thesis
            by (intro exI [of _ "Some e"] exI [of _ h1] exI [of _ "FxConnect # fx"]) (simp add: entered_def)
        next
          case (Inr lc)
          obtain lease cfg' where lc: "lc = (lease, cfg')" by fastforce
          obtain err h' where d: "run_device app w lease cfg' h1 = (err, h')" by fastforce
          obtain fx' where fx': "h_effects h' = h_effects h1 @ fx'" "lease_account err (set_option (map_option snd lease)) fx'"
            using run_device_account [OF d] by blast
          have "Run app cfg h = Some (err, h')" using run by (simp add: Inr lc d)
          moreover have "{l. FxSpawnRenew l \<in> set fx} = set_option (map_option snd lease)" using o(6) by (simp add: Inr lc)
          moreover have "entered (FxConnect # fx @ fx') = entered fx'" using o(4) by (auto simp: entered_def)
          ultimately show ?thesis using o(2,3,5) fx'
            by (intro exI [of _ err] exI [of _ h'] exI [of _ "FxConnect # fx @ fx'"]) (auto simp: lease_account_def)
        qed
      next
        case False
        then show ?thesis by (auto simp: Run_def entered_def Let_def valid new split: option.splits)
      qed
    qed (simp add: Run_def Let_def valid)
  qed (simp add: Run_def Let_def)
qed

section \<open>Who dials\<close>

text \<open>Whether an end of a pair opens relay connections to the other: in relay mode with the peer's own
  dial loop, in stream mode with the one that runs beside the stream.\<close>

definition dials :: "('ss, 'rs) stream_sdk \<Rightarrow> config \<Rightarrow> user_ref \<Rightarrow> peer_config \<Rightarrow> bool" where
  "dials sdk cfg localUser peer =
     (case runPeer cfg localUser peer of
        StreamTask p \<Rightarrow> lc_fallback (startStreamLoop \<lparr>le_sdk = sdk, le_peer = p\<rparr> (newRuntime cfg [] localUser))
      | DialTask p \<Rightarrow> True
      | NoTask \<Rightarrow> False)"

lemma dials_eq: "dials sdk cfg u peer = shouldDial u (peer_ref peer) (peer_DialPolicy peer)"
  by (simp add: dials_def runPeer_def startStreamLoop_def newRuntime_def)

text \<open>C29. Of two nodes that have each other as peers and leave the dial policy at auto, exactly one opens
  relay connections to the other, whatever transport modes the two choose, each for itself.\<close>

theorem one_end_dials:
  assumes "peer_ref p = b" "peer_ref q = a" "a \<noteq> b" "peer_DialPolicy p = ''auto''" "peer_DialPolicy q = ''auto''"
  shows "dials sdk cfg a p \<noteq> dials sdk' cfg' b q"
  using assms by (auto simp: dials_eq shouldDial_auto)

theorem one_end_dials_witness:
  "dials counting_sdk example_config (UserRef 1 1) (peer_with ''b'' 2 [''10.250.0.2/32'']) \<noteq>
   dials counting_sdk example_config (UserRef 1 2) (peer_with ''a'' 1 [''10.250.0.1/32''])"
  by (rule one_end_dials) (simp_all add: peer_with_def UserRef_ToTurntf_def)

end
