(* ===== verification/Spec2Isabelle.thy ===== *)
theory Spec2Isabelle
  imports Dataplane StreamWriter Startup
begin

text \<open>
  \<^bold>\<open>turntf-tun, a model and its correctness.\<close>

  \<^bold>\<open>The program.\<close> turntf-tun joins hosts into an overlay network. It opens a TUN device, routes every IP
  packet read from it to a peer by longest prefix, and carries it to the peer through a message
  service (the turntf SDK), over a reliable stream where the peer is configured for one and over a
  relay connection otherwise or as a fallback. Packets from the network are written to the device.
  Addresses may be leased from a key-value service, where nodes also find each other.

  \<^bold>\<open>The theories, bottom up, and the code they model\<close> (paths under src/):
  \<^item> Prelude: words and bytes, encoding/binary, Go's division and channels, and the interfaces
    \<open>bounded_queue\<close>, \<open>machine\<close>, \<open>monotone_machine\<close> and \<open>simulation\<close>.
  \<^item> GoNet: what the code uses of net and net/netip (ParseCIDR, masks, Contains).
  \<^item> Config: internal/tun/config.go, the configuration records, defaults, validation, credentials.
  \<^item> Route: internal/tun/route.go, building the route table and looking a packet up.
  \<^item> RelayPorts: the relay connections of internal/tun/runtime.go (peerPort, acceptRelay,
    registerPort, unregisterPort, closePorts, shouldDial) over a heap of ports.
  \<^item> Framing, TunBatch, StreamBatch: length-prefixed batches; internal/tun/batch.go for the relay and
    the batch functions of internal/tun/stream.go for the stream.
  \<^item> RelayLoop: writeRelayLoop and readRelayLoop of runtime.go on the events at their blocking points.
  \<^item> StreamPort: streamPort of stream.go, its operations as critical sections on a record whose
    channels have an identity, and the stall detector.
  \<^item> StreamRecv: streamReceiver of stream.go and its acknowledgement goroutine.
  \<^item> StreamWriter: writeStreamLoop of stream.go as a program counter over its accesses to the port.
  \<^item> Runtime: the tables of Runtime (runtime.go) and the callbacks of the SDK client (stream.go:
    OnStream, OnStreamSendResult, OnDisconnect), readTUNLoop, and the steps the goroutines make.
  \<^item> Dataplane: what those handlers do for the packets, across components.
  \<^item> Lifecycle: streamLoop, runStream and recoverStream of stream.go, one program counter per peer.
  \<^item> Lease: internal/tun/kvclient.go, lease.go and dynamic.go, the leases and peer discovery.
  \<^item> Device: internal/tun/device.go, the TUN interface and its set-up.
  \<^item> Startup: Run, NewRuntime, Runtime.Run, runPeer and dialLoop of runtime.go and run of
    cmd/turntf-tun/main.go.

  \<^bold>\<open>How state and operations correspond.\<close> A Go struct is a record with the fields of the code (prefixed
  where names collide), an enum a datatype, a uint8, uint32 or uint64 a word of that width, an int
  that is only compared an integer. Pointers that are compared are numbers into a heap. An
  operation under a mutex is one function on the state; a goroutine is a program counter and a
  function from the event at its blocking point to the next one, and an event that is not possible
  there changes nothing. Errors are constructors of an error type (the nil dereference of \<open>login\<close> is
  \<open>KvPanic\<close>), logging is left out, messages
  sent and packets written are recorded. Maps that Go visits in any order are visited in an order
  that is a parameter.

  \<^bold>\<open>Parameters.\<close> The SDK's sender, receiver, sessions and password functions, the HTTP exchange and JSON
  codec of the key-value service, the YAML decoder, netlink and the TUN library are fields of the
  records \<open>sender_sdk\<close>, \<open>receiver_sdk\<close>, \<open>stream_sdk\<close>, \<open>password_sdk\<close>, \<open>kv_http\<close>, \<open>net_os\<close> and \<open>app\<close>.
  Most properties hold for all of them. The lease protocol needs two promises of the service,
  \<open>kv_atomic\<close> (a successful transaction is one step of the database, made where its compares hold) and
  \<open>revisions_unique\<close>; a service in memory keeps both and runs the examples. Two properties of
  renewed leases also need the JSON codec to give back the one value in question. A call whose
  answer may change between two uses, such as \<open>CurrentLogin\<close>, is a function of the call's number.

  \<^bold>\<open>What the lemmas show.\<close>
  \<^item> Data formats: decoding is exact (TunBatch, StreamBatch), encoding and decoding are inverse,
    encoded batches keep within their limits; addresses survive formatting and parsing (Lease).
  \<^item> Routing: lookup is longest-prefix match over the bits of the destination (Route), and the kernel
    is given the same prefixes (Device).
  \<^item> Queues: every queue refuses instead of growing (\<open>bounded_queue\<close>), the relay pipeline delivers in
    order (RelayLoop), the stream writer refines a first-in first-out channel whatever interleaves
    with it (StreamWriter, by \<open>simulation\<close>).
  \<^item> Paths: a port never panics, its invariant survives every operation, frames of a past epoch have
    no effect, a Resume completes only when acknowledged, a waiting writer is not stranded
    (StreamPort); acknowledgements go out in order, pending ones are sent, a stopped receiver goes
    quiet (StreamRecv).
  \<^item> Tables: the selected relay connection is the live one with the lowest relay ID (RelayPorts), no peer
    has two receivers (Runtime); every lifecycle refines the runtime's steps and owns its peer's
    outlet (Lifecycle).
  \<^item> Configuration: validation accepts exactly what a specification of the options accepts, written
    without the code's own checks, and every error names an option that is really at fault (Config).
  \<^item> Recovery: each candidate gets one Resume, unacknowledged frames go out again while the path is
    still not ready, and only when no candidate answers is the stream replaced (Lifecycle).
  \<^item> Leases: acquiring returns, takes no live lease under any interleaving, discovery adds each holder
    once (Lease); the program releases its lease exactly when its runtime was entered (Startup).
  \<^item> Where the code falls short the theorems say so, for every service and every configuration: a
    mapped IPv6 prefix outranks all IPv4 routes, a renewed lease spoils the route table of the next
    node to find it, a renewal overwrites a lease that another node holds, a start that fails before
    its runtime keeps its lease.

  \<^bold>\<open>Loops and fuel.\<close> Loops over data are structural or have a measure (the length of what is left to
  scan). The only fuel is the group count of \<open>ipv6_groups\<close>: 8 is enough as each turn appends two of the
  sixteen bytes. The loop over the address pool runs on 32-bit words and could wrap around; it is a
  \<open>partial_function\<close> and \<open>acquire_returns\<close> proves that it ends. Goroutines run as long as they are given
  events.

  \<^bold>\<open>Not modelled.\<close> Logging and the text of messages; the constant ExampleConfig and the YAML hook of
  Duration (it belongs to the decoder); the flag package and the usage text; timers other than as
  events and compared times; data races inside the SDK; the aliasing of the read buffer of the TUN
  device, whose contents the code copies before it keeps a packet; the third-party modules, the
  tests, the documentation and the deployment files.
\<close>

end
